theory Spec2Isabelle
  imports Complex_Main "HOL-Library.Multiset"
begin

section \<open>Python's strings and numbers, as far as inventory.py uses them\<close>

text \<open>
  A Python \<open>str\<close> is a \<open>string\<close> whose characters are the code points below 256. White
  space, line breaks, digits and lower case are those of Python on this range; upper case
  also, but for the three letters whose capital lies beyond it (B5, DF and FF), which the
  model leaves as they are. An \<open>int\<close> is unbounded; the limit that an interpreter may put
  on the number of digits in a conversion between \<open>int\<close> and \<open>str\<close> is not modelled.
\<close>

definition is_space :: "char \<Rightarrow> bool" where
  \<comment> \<open>\<open>str.isspace\<close>: TAB, LF, VT, FF, CR, FS, GS, RS, US, the blank, NEL and the
      no-break space\<close>
  "is_space c \<longleftrightarrow> c \<in> set [CHR 0x09, CHR 0x0A, CHR 0x0B, CHR 0x0C, CHR 0x0D,
                              CHR 0x1C, CHR 0x1D, CHR 0x1E, CHR 0x1F, CHR 0x20,
                              CHR 0x85, CHR 0xA0]"

definition is_int_space :: "char \<Rightarrow> bool" where
  \<comment> \<open>the white space that \<open>int\<close> accepts around a number: as \<open>is_space\<close> without FS, GS,
      RS and US\<close>
  "is_int_space c \<longleftrightarrow> c \<in> set [CHR 0x09, CHR 0x0A, CHR 0x0B, CHR 0x0C, CHR 0x0D, CHR 0x20,
                                  CHR 0x85, CHR 0xA0]"

definition strip :: "string \<Rightarrow> string" where
  \<comment> \<open>\<open>str.strip()\<close>\<close>
  "strip s = rev (dropWhile is_space (rev (dropWhile is_space s)))"

definition int_strip :: "string \<Rightarrow> string" where
  "int_strip s = rev (dropWhile is_int_space (rev (dropWhile is_int_space s)))"

definition upper_char :: "char \<Rightarrow> char" where
  "upper_char c =
     (let n = (of_char c :: nat)
      in if 97 \<le> n \<and> n \<le> 122 \<or> 224 \<le> n \<and> n \<le> 254 \<and> n \<noteq> 247 then char_of (n - 32) else c)"

definition lower_char :: "char \<Rightarrow> char" where
  "lower_char c =
     (let n = (of_char c :: nat)
      in if 65 \<le> n \<and> n \<le> 90 \<or> 192 \<le> n \<and> n \<le> 222 \<and> n \<noteq> 215 then char_of (n + 32) else c)"

definition upper :: "string \<Rightarrow> string" where
  \<comment> \<open>\<open>str.upper()\<close>\<close>
  "upper s = map upper_char s"

definition lower :: "string \<Rightarrow> string" where
  \<comment> \<open>\<open>str.lower()\<close>\<close>
  "lower s = map lower_char s"

fun split_on :: "char \<Rightarrow> string \<Rightarrow> string list" where
  \<comment> \<open>\<open>s.split(sep)\<close> for a separator of one character: one field more than separators\<close>
  "split_on sep [] = [[]]"
| "split_on sep (c # cs) =
     (if c = sep then [] # split_on sep cs
      else (case split_on sep cs of [] \<Rightarrow> [[c]] | f # fs \<Rightarrow> (c # f) # fs))"

fun universal_newlines :: "string \<Rightarrow> string" where
  \<comment> \<open>reading in text mode: CR LF and a CR alone arrive as LF\<close>
  "universal_newlines [] = []"
| "universal_newlines [c] = [if c = CHR 0x0D then CHR 0x0A else c]"
| "universal_newlines (c # d # cs) =
     (if c = CHR 0x0D \<and> d = CHR 0x0A then CHR 0x0A # universal_newlines cs
      else if c = CHR 0x0D then CHR 0x0A # universal_newlines (d # cs)
      else c # universal_newlines (d # cs))"

fun lf_lines :: "string \<Rightarrow> string list" where
  \<comment> \<open>the lines of a text: each keeps its line feed, the last one may lack it\<close>
  "lf_lines [] = []"
| "lf_lines (c # cs) =
     (if c = CHR 0x0A then [c] # lf_lines cs
      else (case lf_lines cs of [] \<Rightarrow> [[c]] | l # ls \<Rightarrow> (c # l) # ls))"

definition file_lines :: "string \<Rightarrow> string list" where
  \<comment> \<open>iterating over a file opened with \<open>open(name, 'r')\<close>\<close>
  "file_lines content = lf_lines (universal_newlines content)"

definition is_digit :: "char \<Rightarrow> bool" where
  "is_digit c \<longleftrightarrow> 48 \<le> (of_char c :: nat) \<and> (of_char c :: nat) \<le> 57"

definition digit_value :: "char \<Rightarrow> nat" where
  "digit_value c = of_char c - 48"

definition digit_char :: "nat \<Rightarrow> char" where
  "digit_char d = char_of (48 + d)"

fun parse_digits :: "bool \<Rightarrow> nat \<Rightarrow> string \<Rightarrow> nat option" where
  \<comment> \<open>decimal digits, single underscores allowed between two digits; the flag says
      that the previous character was a digit\<close>
  "parse_digits prev acc [] = (if prev then Some acc else None)"
| "parse_digits prev acc (c # cs) =
     (if is_digit c then parse_digits True (10 * acc + digit_value c) cs
      else if c = CHR ''_'' \<and> prev then parse_digits False acc cs
      else None)"

definition py_int :: "string \<Rightarrow> int option" where
  \<comment> \<open>\<open>int(s)\<close> on a string; \<open>None\<close> is \<open>ValueError\<close>\<close>
  "py_int s =
     (case int_strip s of
        [] \<Rightarrow> None
      | c # cs \<Rightarrow>
          if c = CHR ''-'' then map_option (\<lambda>n. - int n) (parse_digits False 0 cs)
          else if c = CHR ''+'' then map_option int (parse_digits False 0 cs)
          else map_option int (parse_digits False 0 (c # cs)))"

function str_nat :: "nat \<Rightarrow> string" where
  "str_nat n = (if n < 10 then [digit_char n] else str_nat (n div 10) @ [digit_char (n mod 10)])"
  by pat_completeness auto
termination
  by (relation "measure id") auto

declare str_nat.simps [simp del]

definition str_int :: "int \<Rightarrow> string" where
  \<comment> \<open>\<open>str(i)\<close> of an integer, as an f-string writes it\<close>
  "str_int i = (if i < 0 then CHR ''-'' # str_nat (nat (- i)) else str_nat (nat i))"

text \<open>
  A Python \<open>float\<close> is an IEEE double, and \<open>float(s)\<close>, \<open>str(x)\<close>, the format \<open>.2f\<close> and
  the rounding of \<open>+\<close> and \<open>*\<close> belong to the language runtime. They are parameters of the
  model: the type \<open>'f\<close> of float values carries \<open>0\<close>, \<open>+\<close>, \<open>*\<close> with no law assumed, and
  a linear order, which is the order of the doubles on the values other than NaN (the two
  zeros are one value); the conversions are the fields of \<open>py_float\<close>. NaN is a value like
  the others, told apart by \<open>is_nan\<close>: every comparison with it is false in Python, so
  \<open>x > 0\<close> is \<open>positive\<close> below, and \<open>list.sort\<close> with a NaN among the keys compares
  without a total order. What it returns then depends on the sorting algorithm and is left
  open, as the field \<open>sort_with_nan\<close>.
\<close>

type_synonym table_row = "string \<times> int \<times> int \<times> string"

record 'f py_float =
  float_of_str :: "string \<Rightarrow> 'f option"  \<comment> \<open>\<open>float(s)\<close>; \<open>None\<close> is \<open>ValueError\<close>\<close>
  float_of_int :: "int \<Rightarrow> 'f option"  \<comment> \<open>an \<open>int\<close> operand of \<open>*\<close>; \<open>None\<close> is \<open>OverflowError\<close>\<close>
  str_of_float :: "'f \<Rightarrow> string"  \<comment> \<open>\<open>f"{x}"\<close>\<close>
  fmt2 :: "'f \<Rightarrow> string"  \<comment> \<open>\<open>f"{x:.2f}"\<close>\<close>
  is_nan :: "'f \<Rightarrow> bool"  \<comment> \<open>\<open>x != x\<close>\<close>
  sort_with_nan :: "table_row list \<Rightarrow> table_row list"
    \<comment> \<open>the country table after \<open>table.sort(...)\<close> when a key is NaN\<close>

definition positive :: "'f::{zero,linorder} py_float \<Rightarrow> 'f \<Rightarrow> bool" where
  \<comment> \<open>\<open>x > 0\<close>\<close>
  "positive F x \<longleftrightarrow> \<not> is_nan F x \<and> 0 < x"

datatype error = ValueError | OverflowError | EOFError | OSError | StopIteration

section \<open>The record and the store\<close>

record 'f shoe =
  country :: string
  code :: string
  product :: string
  cost :: 'f
  quantity :: int

definition Shoe ::
  "'f py_float \<Rightarrow> string \<Rightarrow> string \<Rightarrow> string \<Rightarrow> string \<Rightarrow> string \<Rightarrow> error + 'f shoe" where
  \<comment> \<open>\<open>Shoe.__init__\<close> on five strings: \<open>float(cost)\<close> first, then \<open>int(quantity)\<close>\<close>
  "Shoe F country' code' product' cost' quantity' =
     (case float_of_str F cost' of
        None \<Rightarrow> Inl ValueError
      | Some c \<Rightarrow>
          (case py_int quantity' of
             None \<Rightarrow> Inl ValueError
           | Some q \<Rightarrow>
               Inr \<lparr>country = country', code = code', product = product', cost = c, quantity = q\<rparr>))"

definition shoe_str :: "'f py_float \<Rightarrow> 'f shoe \<Rightarrow> string" where
  \<comment> \<open>\<open>Shoe.__str__\<close>\<close>
  "shoe_str F s =
     country s @ '','' @ code s @ '','' @ product s @ '','' @ str_of_float F (cost s) @ '','' @
     str_int (quantity s)"

text \<open>
  The state of a run: the global \<open>shoe_list\<close>, the content of \<open>inventory.txt\<close> (\<open>None\<close>
  when the file does not exist) and whether opening the file raises \<open>OSError\<close>. The
  content is the text as Python reads it, with the line feed as the only line break.
\<close>

record 'f world =
  shoe_list :: "'f shoe list"
  inventory_txt :: "string option"
  disk_error :: bool

definition header :: string where
  "header = ''country,code,product,cost,quantity''"

section \<open>Loading the file\<close>

definition line_fields :: "string \<Rightarrow> string list" where
  \<comment> \<open>\<open>line.strip().split(',')\<close>\<close>
  "line_fields line = split_on CHR '','' (strip line)"

fun read_lines :: "'f py_float \<Rightarrow> string list \<Rightarrow> 'f shoe list \<Rightarrow> error option \<times> 'f shoe list" where
  \<comment> \<open>the loop \<open>for line in file\<close> over the lines after the header, with \<open>shoe_list\<close> threaded
      through; an exception leaves the loop with the list as it stands\<close>
  "read_lines F [] shoes = (None, shoes)"
| "read_lines F (line # rest) shoes =
     (let data = line_fields line in
      if length data = 5 then
        (case Shoe F (data ! 0) (data ! 1) (data ! 2) (data ! 3) (data ! 4) of
           Inl e \<Rightarrow> (Some e, shoes)
         | Inr shoe \<Rightarrow> read_lines F rest (shoes @ [shoe]))
      else read_lines F rest shoes)"

definition read_shoes_data :: "'f py_float \<Rightarrow> 'f world \<Rightarrow> bool \<times> 'f world" where
  \<comment> \<open>every exception ends in the \<open>except\<close> branch, which answers \<open>False\<close> and leaves
      \<open>shoe_list\<close> as it is: \<open>OSError\<close> from \<open>open\<close>, \<open>StopIteration\<close> from \<open>next\<close> on
      an empty file, \<open>ValueError\<close> from \<open>Shoe\<close>\<close>
  "read_shoes_data F w =
     (let w0 = w\<lparr>shoe_list := []\<rparr> in
      case inventory_txt w0 of
        None \<Rightarrow>
          if disk_error w0 then (False, w0)
          else (False, w0\<lparr>inventory_txt := Some header\<rparr>)
      | Some txt \<Rightarrow>
          if disk_error w0 then (False, w0)
          else
            (case file_lines txt of
               [] \<Rightarrow> (False, w0)
             | h # ls \<Rightarrow>
                 (case read_lines F ls [] of
                    (None, shoes) \<Rightarrow> (True, w0\<lparr>shoe_list := shoes\<rparr>)
                  | (Some e, shoes) \<Rightarrow> (False, w0\<lparr>shoe_list := shoes\<rparr>))))"

datatype startup_message = Loaded nat | Starting_with_empty_inventory

definition main_load :: "'f py_float \<Rightarrow> 'f world \<Rightarrow> startup_message \<times> 'f world" where
  \<comment> \<open>the first statement of \<open>main\<close>\<close>
  "main_load F w =
     (case read_shoes_data F w of
        (True, w') \<Rightarrow> (Loaded (length (shoe_list w')), w')
      | (False, w') \<Rightarrow> (Starting_with_empty_inventory, w'))"

section \<open>The operations of the menu\<close>

text \<open>
  Each operation takes the lines the user types at its prompts (an exhausted input is
  \<open>EOFError\<close>, which nothing catches) and returns what it prints, as a \<open>report\<close>, or
  the exception that leaves it; the operations that write return the new state too.
\<close>

datatype 'f report =
    No_shoes_in_inventory
  | Shoe_added
  | Error_saving_shoe
  | Restock_declined "'f shoe"
  | Restock_successful "'f shoe"
  | Quantity_must_be_positive "'f shoe"
  | Invalid_quantity "'f shoe"
  | Shoe_found "'f shoe"
  | Shoe_not_found
  | Shoe_for_sale "'f shoe"
  | Stock_by_country "table_row list"

subsection \<open>Add\<close>

fun read_cost :: "'f::{zero,linorder} py_float \<Rightarrow> string list \<Rightarrow> error + 'f \<times> string list" where
  \<comment> \<open>the first \<open>while True\<close> loop: one prompt per round\<close>
  "read_cost F [] = Inl EOFError"
| "read_cost F (x # inp) =
     (case float_of_str F x of
        None \<Rightarrow> read_cost F inp
      | Some c \<Rightarrow> if positive F c then Inr (c, inp) else read_cost F inp)"

fun read_quantity :: "string list \<Rightarrow> error + int \<times> string list" where
  \<comment> \<open>the second \<open>while True\<close> loop\<close>
  "read_quantity [] = Inl EOFError"
| "read_quantity (x # inp) =
     (case py_int x of
        None \<Rightarrow> read_quantity inp
      | Some q \<Rightarrow> if 0 \<le> q then Inr (q, inp) else read_quantity inp)"

definition enter_shoe :: "'f::{zero,linorder} py_float \<Rightarrow> string list \<Rightarrow> error + 'f shoe" where
  \<comment> \<open>\<open>capture_shoes\<close> up to the creation of the object\<close>
  "enter_shoe F inp =
     (case inp of
        country' # code_in # product' # inp1 \<Rightarrow>
          (case read_cost F inp1 of
             Inl e \<Rightarrow> Inl e
           | Inr (cost', inp2) \<Rightarrow>
               (case read_quantity inp2 of
                  Inl e \<Rightarrow> Inl e
                | Inr (quantity', inp3) \<Rightarrow>
                    Inr \<lparr>country = country', code = upper code_in, product = product',
                         cost = cost', quantity = quantity'\<rparr>))
      | _ \<Rightarrow> Inl EOFError)"

definition capture_shoes ::
  "'f::{zero,linorder} py_float \<Rightarrow> string list \<Rightarrow> 'f world \<Rightarrow> (error + 'f report) \<times> 'f world" where
  "capture_shoes F inp w =
     (case enter_shoe F inp of
        Inl e \<Rightarrow> (Inl e, w)
      | Inr shoe \<Rightarrow>
          (let w1 = w\<lparr>shoe_list := shoe_list w @ [shoe]\<rparr> in
           if disk_error w1 then (Inr Error_saving_shoe, w1)
           else
             (Inr Shoe_added,
              w1\<lparr>inventory_txt :=
                   Some ((case inventory_txt w1 of None \<Rightarrow> [] | Some txt \<Rightarrow> txt) @
                         [CHR 0x0A] @ country shoe @ '','' @ code shoe @ '','' @ product shoe @
                         '','' @ str_of_float F (cost shoe) @ '','' @ str_int (quantity shoe))\<rparr>)))"

definition capture_all ::
  "'f::{zero,linorder} py_float \<Rightarrow> string list list \<Rightarrow> 'f world \<Rightarrow> 'f world" where
  \<comment> \<open>menu choice 1 taken once per element, each with the lines typed at its prompts\<close>
  "capture_all F inps w = foldl (\<lambda>w' inp. snd (capture_shoes F inp w')) w inps"

subsection \<open>Minimum and maximum by key\<close>

fun min_scan :: "('a \<Rightarrow> 'k::linorder) \<Rightarrow> nat \<Rightarrow> 'k \<Rightarrow> nat \<Rightarrow> 'a list \<Rightarrow> nat" where
  \<comment> \<open>the scan of \<open>min(xs, key=...)\<close>: the best index and its key so far, the index of the
      next element; only a strictly smaller key replaces the best\<close>
  "min_scan key best bk i [] = best"
| "min_scan key best bk i (x # xs) =
     (if key x < bk then min_scan key i (key x) (Suc i) xs
      else min_scan key best bk (Suc i) xs)"

fun max_scan :: "('a \<Rightarrow> 'k::linorder) \<Rightarrow> nat \<Rightarrow> 'k \<Rightarrow> nat \<Rightarrow> 'a list \<Rightarrow> nat" where
  "max_scan key best bk i [] = best"
| "max_scan key best bk i (x # xs) =
     (if bk < key x then max_scan key i (key x) (Suc i) xs
      else max_scan key best bk (Suc i) xs)"

definition min_index :: "('a \<Rightarrow> 'k::linorder) \<Rightarrow> 'a list \<Rightarrow> nat option" where
  \<comment> \<open>the position of \<open>min(xs, key=...)\<close>; \<open>None\<close> is the \<open>ValueError\<close> on an empty list\<close>
  "min_index key xs = (case xs of [] \<Rightarrow> None | x # rest \<Rightarrow> Some (min_scan key 0 (key x) 1 rest))"

definition max_index :: "('a \<Rightarrow> 'k::linorder) \<Rightarrow> 'a list \<Rightarrow> nat option" where
  "max_index key xs = (case xs of [] \<Rightarrow> None | x # rest \<Rightarrow> Some (max_scan key 0 (key x) 1 rest))"

subsection \<open>Restock\<close>

definition rewrite_file :: "'f py_float \<Rightarrow> 'f shoe list \<Rightarrow> string" where
  \<comment> \<open>the header, then a line feed and \<open>str(shoe)\<close> for every shoe\<close>
  "rewrite_file F shoes = header @ concat (map (\<lambda>shoe. CHR 0x0A # shoe_str F shoe) shoes)"

definition re_stock ::
  "'f py_float \<Rightarrow> string list \<Rightarrow> 'f world \<Rightarrow> (error + 'f report) \<times> 'f world" where
  \<comment> \<open>\<open>lowest\<close> is an element of the list, so \<open>lowest.quantity += add\<close> updates the list at
      its position; \<open>OSError\<close> from the rewrite is not caught (only \<open>ValueError\<close> is)\<close>
  "re_stock F inp w =
     (if shoe_list w = [] then (Inr No_shoes_in_inventory, w)
      else
        (case min_index quantity (shoe_list w) of
           None \<Rightarrow> (Inl ValueError, w)
         | Some i \<Rightarrow>
             (let lowest = shoe_list w ! i in
              case inp of
                [] \<Rightarrow> (Inl EOFError, w)
              | answer # inp1 \<Rightarrow>
                  if lower answer = ''yes'' then
                    (case inp1 of
                       [] \<Rightarrow> (Inl EOFError, w)
                     | a # inp2 \<Rightarrow>
                         (case py_int a of
                            None \<Rightarrow> (Inr (Invalid_quantity lowest), w)
                          | Some add \<Rightarrow>
                              if 0 < add then
                                (let w1 = w\<lparr>shoe_list :=
                                             (shoe_list w)[i := lowest\<lparr>quantity := quantity lowest + add\<rparr>]\<rparr>
                                 in if disk_error w1 then (Inl OSError, w1)
                                    else (Inr (Restock_successful lowest),
                                          w1\<lparr>inventory_txt := Some (rewrite_file F (shoe_list w1))\<rparr>))
                              else (Inr (Quantity_must_be_positive lowest), w)))
                  else (Inr (Restock_declined lowest), w))))"

subsection \<open>Search\<close>

fun search_loop :: "string \<Rightarrow> 'f shoe list \<Rightarrow> 'f report" where
  "search_loop c [] = Shoe_not_found"
| "search_loop c (shoe # rest) = (if code shoe = c then Shoe_found shoe else search_loop c rest)"

definition search_shoe :: "string list \<Rightarrow> 'f world \<Rightarrow> error + 'f report" where
  "search_shoe inp w =
     (if shoe_list w = [] then Inr No_shoes_in_inventory
      else (case inp of [] \<Rightarrow> Inl EOFError | x # inp1 \<Rightarrow> Inr (search_loop (upper x) (shoe_list w))))"

subsection \<open>Highest quantity\<close>

definition highest_qty :: "'f world \<Rightarrow> error + 'f report" where
  "highest_qty w =
     (if shoe_list w = [] then Inr No_shoes_in_inventory
      else (case max_index quantity (shoe_list w) of
              None \<Rightarrow> Inl ValueError
            | Some i \<Rightarrow> Inr (Shoe_for_sale (shoe_list w ! i))))"

subsection \<open>Stock by country\<close>

record 'f stats =
  total_value :: 'f
  total_quantity :: int
  products :: int

fun accumulate ::
  "'f::{zero,plus,times} py_float \<Rightarrow> 'f shoe list \<Rightarrow> (string \<times> 'f stats) list \<Rightarrow>
   error + (string \<times> 'f stats) list" where
  \<comment> \<open>the loop that fills the dict \<open>country_stats\<close>, kept in insertion order; the first sum
      is \<open>0 + cost * quantity\<close>, and \<open>float * int\<close> converts the \<open>int\<close>\<close>
  "accumulate F [] country_stats = Inr country_stats"
| "accumulate F (shoe # rest) country_stats =
     (let cs1 = (if country shoe \<notin> fst ` set country_stats
                 then country_stats @
                      [(country shoe, \<lparr>total_value = 0, total_quantity = 0, products = 0\<rparr>)]
                 else country_stats)
      in case float_of_int F (quantity shoe) of
           None \<Rightarrow> Inl OverflowError
         | Some q \<Rightarrow>
             accumulate F rest
               (map (\<lambda>(k, st).
                       if k = country shoe
                       then (k, st\<lparr>total_value := total_value st + cost shoe * q,
                                  total_quantity := total_quantity st + quantity shoe,
                                  products := products st + 1\<rparr>)
                       else (k, st)) cs1))"

definition table_of :: "'f py_float \<Rightarrow> (string \<times> 'f stats) list \<Rightarrow> table_row list" where
  "table_of F country_stats =
     map (\<lambda>(k, st). (k, products st, total_quantity st, ''R'' @ fmt2 F (total_value st)))
       country_stats"

definition row_key :: "'f py_float \<Rightarrow> table_row \<Rightarrow> 'f option" where
  \<comment> \<open>\<open>float(x[3][1:])\<close>\<close>
  "row_key F row = (case row of (k, n, q, v) \<Rightarrow> float_of_str F (drop 1 v))"

definition sort_reverse :: "('a \<Rightarrow> 'k::linorder) \<Rightarrow> 'a list \<Rightarrow> 'a list" where
  \<comment> \<open>\<open>list.sort(key=..., reverse=True)\<close> on keys in a total order: the list is reversed,
      sorted stably in ascending order, and reversed again\<close>
  "sort_reverse key xs = rev (sort_key key (rev xs))"

definition stock_by_country ::
  "'f::{zero,plus,times,linorder} py_float \<Rightarrow> 'f world \<Rightarrow> error + 'f report" where
  "stock_by_country F w =
     (if shoe_list w = [] then Inr No_shoes_in_inventory
      else
        (case accumulate F (shoe_list w) [] of
           Inl e \<Rightarrow> Inl e
         | Inr country_stats \<Rightarrow>
             (let table = table_of F country_stats in
              if None \<in> set (map (row_key F) table) then Inl ValueError
              else if list_ex (\<lambda>row. is_nan F (the (row_key F row))) table
              then Inr (Stock_by_country (sort_with_nan F table))
              else Inr (Stock_by_country (sort_reverse (\<lambda>row. the (row_key F row)) table)))))"

section \<open>Exact decimal arithmetic as an instance of the float operations\<close>

text \<open>
  For evaluating the program on concrete inputs the float operations are instantiated over
  the rationals, computed without rounding and restricted to plain decimal notation
  (sign, digits, point, digits). This agrees with the doubles wherever the doubles are
  exact: costs such as \<open>10.0\<close>, \<open>0.5\<close> or \<open>10.00390625\<close>, and small quantities. No
  rational is NaN.
\<close>

definition digits_nat :: "string \<Rightarrow> nat" where
  "digits_nat ds = foldl (\<lambda>a c. 10 * a + digit_value c) 0 ds"

definition exact_of_str :: "string \<Rightarrow> rat option" where
  "exact_of_str s =
     (let t = int_strip s;
          neg = (take 1 t = ''-'');
          body = (if take 1 t = ''-'' \<or> take 1 t = ''+'' then drop 1 t else t);
          ip = takeWhile (\<lambda>c. c \<noteq> CHR ''.'') body;
          fp = drop 1 (dropWhile (\<lambda>c. c \<noteq> CHR ''.'') body)
      in if list_all is_digit ip \<and> list_all is_digit fp \<and> (ip \<noteq> [] \<or> fp \<noteq> [])
         then Some ((if neg then - 1 else 1) *
                    (of_nat (digits_nat ip) + of_nat (digits_nat fp) / 10 ^ length fp))
         else None)"

fun frac_digits :: "nat \<Rightarrow> rat \<Rightarrow> string" where
  "frac_digits 0 r = []"
| "frac_digits (Suc k) r =
     (if r = 0 then []
      else digit_char (nat \<lfloor>r * 10\<rfloor>) # frac_digits k (r * 10 - of_int \<lfloor>r * 10\<rfloor>))"

definition exact_str :: "rat \<Rightarrow> string" where
  "exact_str x =
     (if x < 0 then ''-'' else []) @ str_nat (nat \<lfloor>\<bar>x\<bar>\<rfloor>) @ ''.'' @
     (if \<bar>x\<bar> = of_int \<lfloor>\<bar>x\<bar>\<rfloor> then ''0'' else frac_digits 17 (\<bar>x\<bar> - of_int \<lfloor>\<bar>x\<bar>\<rfloor>))"

definition round_half_even :: "rat \<Rightarrow> int" where
  "round_half_even r =
     (let f = \<lfloor>r\<rfloor>; d = r - of_int f
      in if d < 1 / 2 then f else if 1 / 2 < d then f + 1 else if even f then f else f + 1)"

definition exact_fmt2 :: "rat \<Rightarrow> string" where
  "exact_fmt2 x =
     (let n = nat (round_half_even (\<bar>x\<bar> * 100))
      in (if x < 0 then ''-'' else []) @ str_nat (n div 100) @ ''.'' @
         [digit_char (n mod 100 div 10), digit_char (n mod 10)])"

definition exact :: "rat py_float" where
  "exact = \<lparr>float_of_str = exact_of_str, float_of_int = (\<lambda>i. Some (of_int i)),
            str_of_float = exact_str, fmt2 = exact_fmt2, is_nan = (\<lambda>x. False),
            sort_with_nan = (\<lambda>table. table)\<rparr>"

section \<open>Properties the specification names\<close>

text \<open>The first position of a least key, and the first position of a greatest key.\<close>

definition first_min_at :: "('a \<Rightarrow> 'k::linorder) \<Rightarrow> 'a list \<Rightarrow> nat \<Rightarrow> bool" where
  "first_min_at key xs i \<longleftrightarrow>
     i < length xs \<and> (\<forall>j \<in> {0..<length xs}. key (xs ! i) \<le> key (xs ! j)) \<and>
     (\<forall>j \<in> {0..<i}. key (xs ! i) < key (xs ! j))"

definition first_max_at :: "('a \<Rightarrow> 'k::linorder) \<Rightarrow> 'a list \<Rightarrow> nat \<Rightarrow> bool" where
  "first_max_at key xs i \<longleftrightarrow>
     i < length xs \<and> (\<forall>j \<in> {0..<length xs}. key (xs ! j) \<le> key (xs ! i)) \<and>
     (\<forall>j \<in> {0..<i}. key (xs ! j) < key (xs ! i))"

text \<open>
  What the load makes of one line with five fields, the lines after the header, and the
  bounds that the prompts of add enforce.
\<close>

definition line_shoe :: "'f py_float \<Rightarrow> string \<Rightarrow> error + 'f shoe" where
  "line_shoe F line =
     (let data = line_fields line in Shoe F (data ! 0) (data ! 1) (data ! 2) (data ! 3) (data ! 4))"



text \<open>
  The table of the country report before it is sorted, as the specification describes it:
  one row for each country in the order of first appearance, with the number of its
  records, the sum of their quantities and the sum of \<open>cost * quantity\<close>, added up from
  zero in store order and shown with two decimals. The value a row shows, read back as a
  number, is \<open>shown_value\<close>.
\<close>

definition countries_in_order :: "'f shoe list \<Rightarrow> string list" where
  "countries_in_order shoes = rev (remdups (rev (map country shoes)))"

definition shoe_value :: "'f::times py_float \<Rightarrow> 'f shoe \<Rightarrow> 'f" where
  "shoe_value F shoe = cost shoe * the (float_of_int F (quantity shoe))"

definition grouped_table :: "'f::{zero,plus,times} py_float \<Rightarrow> 'f shoe list \<Rightarrow> table_row list" where
  "grouped_table F shoes =
     map (\<lambda>c. (c,
               int (length (filter (\<lambda>s. country s = c) shoes)),
               sum_list (map quantity (filter (\<lambda>s. country s = c) shoes)),
               ''R'' @ fmt2 F (foldl (\<lambda>t s. t + shoe_value F s) 0 (filter (\<lambda>s. country s = c) shoes))))
       (countries_in_order shoes)"

definition shown_value :: "'f py_float \<Rightarrow> table_row \<Rightarrow> 'f" where
  "shown_value F row = the (row_key F row)"

text \<open>Auxiliary: the running totals of the loop, for the proofs.\<close>

definition add_shoe :: "'f::{plus,times} py_float \<Rightarrow> 'f stats \<Rightarrow> 'f shoe \<Rightarrow> 'f stats" where
  "add_shoe F st shoe =
     st\<lparr>total_value := total_value st + shoe_value F shoe,
        total_quantity := total_quantity st + quantity shoe,
        products := products st + 1\<rparr>"

definition grouped_stats ::
  "'f::{zero,plus,times} py_float \<Rightarrow> 'f shoe list \<Rightarrow> (string \<times> 'f stats) list" where
  "grouped_stats F shoes =
     map (\<lambda>c. (c, foldl (add_shoe F) \<lparr>total_value = 0, total_quantity = 0, products = 0\<rparr>
                     (filter (\<lambda>s. country s = c) shoes)))
       (countries_in_order shoes)"

text \<open>
  A record that the file format can hold: no comma, line feed or carriage return in its
  texts, no white space at the start of the country (the line is stripped when it is
  read), and a cost whose text \<open>float\<close> reads back as the same value.
\<close>

definition plain_text :: "string \<Rightarrow> bool" where
  "plain_text s \<longleftrightarrow> list_all (\<lambda>c. c \<noteq> CHR '','' \<and> c \<noteq> CHR 0x0A \<and> c \<noteq> CHR 0x0D) s"

definition storable :: "'f py_float \<Rightarrow> 'f shoe \<Rightarrow> bool" where
  "storable F shoe \<longleftrightarrow>
     plain_text (country shoe) \<and> plain_text (code shoe) \<and> plain_text (product shoe) \<and>
     plain_text (str_of_float F (cost shoe)) \<and>
     (country shoe = [] \<or> \<not> is_space (hd (country shoe))) \<and>
     float_of_str F (str_of_float F (cost shoe)) = Some (cost shoe)"

section \<open>Example states\<close>

definition mk_shoe :: "string \<Rightarrow> string \<Rightarrow> string \<Rightarrow> rat \<Rightarrow> int \<Rightarrow> rat shoe" where
  "mk_shoe c k p x q = \<lparr>country = c, code = k, product = p, cost = x, quantity = q\<rparr>"

definition on_disk :: "string \<Rightarrow> rat world" where
  \<comment> \<open>a run that has not loaded yet, with the given content of \<open>inventory.txt\<close>\<close>
  "on_disk txt = \<lparr>shoe_list = [], inventory_txt = Some txt, disk_error = False\<rparr>"

definition file_bad_cost :: string where
  "file_bad_cost =
     header @ [CHR 0x0A] @ ''ZA,A1,Air,10.0,5'' @ [CHR 0x0A] @ ''US,B2,Max,abc,3''"

definition shoes_5229 :: "rat shoe list" where
  "shoes_5229 =
     [mk_shoe ''ZA'' ''A1'' ''Air'' 10 5, mk_shoe ''US'' ''B2'' ''Max'' 20 2,
      mk_shoe ''UK'' ''C3'' ''Run'' 30 2, mk_shoe ''ZA'' ''D4'' ''Zoom'' 40 9]"

definition in_store :: "rat shoe list \<Rightarrow> rat world" where
  "in_store shoes = \<lparr>shoe_list = shoes, inventory_txt = Some header, disk_error = False\<rparr>"

definition file_lower_code :: string where
  "file_lower_code = header @ [CHR 0x0A] @ ''ZA,air001,Air Max,150.0,10''"


definition file_with_malformed_lines :: string where
  "file_with_malformed_lines =
     header @ [CHR 0x0A] @ ''ZA,A1,Air,10.0,5'' @ [CHR 0x0A] @ ''garbage'' @ [CHR 0x0A] @
     ''US,B2,Max,20.0,3,extra'' @ [CHR 0x0A] @ [CHR 0x0A] @ ''UK,C3,Run,30.5,2'' @ [CHR 0x0A]"


definition shoes_by_country :: "rat shoe list" where
  "shoes_by_country =
     [mk_shoe ''ZA'' ''A1'' ''Air'' 10 2, mk_shoe ''ZA'' ''B2'' ''Max'' 5 1,
      mk_shoe ''US'' ''C3'' ''Run'' 100 1]"

definition shoes_below_a_cent :: "rat shoe list" where
  "shoes_below_a_cent =
     [mk_shoe ''ZA'' ''A1'' ''Air'' (5121 / 512) 1, mk_shoe ''US'' ''B2'' ''Max'' (2561 / 256) 1]"

definition two_adds :: "string list list" where
  "two_adds =
     [[''ZA'', ''air001'', ''Air Max'', ''x'', ''-1'', ''150.00'', ''ten'', ''10''],
      [''US'', ''b2'', ''Max'', ''20.5'', ''3'']]"

definition add_with_comma :: "string list list" where
  "add_with_comma = [[''ZA'', ''air001'', ''Air,Max'', ''150.00'', ''10'']]"

section \<open>Evaluation lemmas for the examples\<close>

lemmas string_eval =
  strip_def is_space_def int_strip_def is_int_space_def is_digit_def digit_value_def
  digits_nat_def line_fields_def py_int_def upper_def upper_char_def lower_def lower_char_def
  header_def file_lines_def

lemmas exact_eval =
  exact_def exact_of_str_def exact_str_def exact_fmt2_def round_half_even_def digit_char_def

lemma str_nat_digit: "n < 10 \<Longrightarrow> str_nat n = [digit_char n]"
  by (simp add: str_nat.simps)

lemma str_nat_step: "10 \<le> n \<Longrightarrow> str_nat n = str_nat (n div 10) @ [digit_char (n mod 10)]"
  by (subst str_nat.simps) simp

section \<open>Load\<close>

text \<open>
  C1. When a line with five fields has a cost that is no number, the load ends with the
  answer \<open>False\<close> and \<open>main\<close> announces an empty inventory, but the records of the lines
  before it stay in the store: for the file with the lines \<open>ZA,A1,Air,10.0,5\<close> and
  \<open>US,B2,Max,abc,3\<close> after the header, the store holds the first record after the load.
\<close>

theorem load_keeps_shoes_read_before_bad_line:
  "main_load exact (on_disk file_bad_cost) =
     (Starting_with_empty_inventory,
      \<lparr>shoe_list = [mk_shoe ''ZA'' ''A1'' ''Air'' 10 5],
       inventory_txt = Some file_bad_cost, disk_error = False\<rparr>)"
  by (simp add: main_load_def read_shoes_data_def on_disk_def file_bad_cost_def mk_shoe_def
      Shoe_def string_eval exact_eval)

lemma file_lines_header: "file_lines header = [header]"
  by (simp add: header_def file_lines_def)

lemma load_ignores_store:
  "read_shoes_data F (w\<lparr>shoe_list := xs\<rparr>) = read_shoes_data F (w\<lparr>shoe_list := ys\<rparr>)"
  by (simp add: read_shoes_data_def Let_def)

lemma read_disk_error:
  "disk_error w \<Longrightarrow> read_shoes_data F w = (False, w\<lparr>shoe_list := []\<rparr>)"
  by (simp add: read_shoes_data_def Let_def split: option.split)

lemma read_absent:
  "inventory_txt w = None \<Longrightarrow> \<not> disk_error w \<Longrightarrow>
   read_shoes_data F w = (False, w\<lparr>shoe_list := [], inventory_txt := Some header\<rparr>)"
  by (simp add: read_shoes_data_def Let_def)

lemma read_empty_file:
  "inventory_txt w = Some txt \<Longrightarrow> \<not> disk_error w \<Longrightarrow> file_lines txt = [] \<Longrightarrow>
   read_shoes_data F w = (False, w\<lparr>shoe_list := []\<rparr>)"
  by (simp add: read_shoes_data_def Let_def)

lemma read_present:
  "inventory_txt w = Some txt \<Longrightarrow> \<not> disk_error w \<Longrightarrow> file_lines txt = h # ls \<Longrightarrow>
   read_shoes_data F w =
     (fst (read_lines F ls []) = None, w\<lparr>shoe_list := snd (read_lines F ls [])\<rparr>)"
  by (simp add: read_shoes_data_def Let_def split: prod.split option.split)

lemma load_twice:
  "shoe_list (snd (read_shoes_data F (snd (read_shoes_data F w)))) =
   shoe_list (snd (read_shoes_data F w))"
proof (cases "disk_error w")
  case True
  then show ?thesis by (simp add: read_disk_error)
next
  case False
  note ok = this
  show ?thesis
  proof (cases "inventory_txt w")
    case None
    let ?w1 = "w\<lparr>shoe_list := [], inventory_txt := Some header\<rparr>"
    have first: "read_shoes_data F w = (False, ?w1)"
      using None ok by (rule read_absent)
    have "read_shoes_data F ?w1 =
            (fst (read_lines F [] []) = None, ?w1\<lparr>shoe_list := snd (read_lines F [] [])\<rparr>)"
      by (rule read_present [OF _ _ file_lines_header]) (simp_all add: ok)
    with first show ?thesis by simp
  next
    case (Some body)
    show ?thesis
    proof (cases "file_lines body")
      case Nil
      have first: "read_shoes_data F w = (False, w\<lparr>shoe_list := []\<rparr>)"
        using Some ok Nil by (rule read_empty_file)
      have "read_shoes_data F (w\<lparr>shoe_list := []\<rparr>) = (False, w\<lparr>shoe_list := [], shoe_list := []\<rparr>)"
        by (rule read_empty_file [OF _ _ Nil]) (simp_all add: ok Some)
      with first show ?thesis by simp
    next
      case (Cons h ls)
      let ?r = "read_lines F ls []"
      have first: "read_shoes_data F w = (fst ?r = None, w\<lparr>shoe_list := snd ?r\<rparr>)"
        using Some ok Cons by (rule read_present)
      have "read_shoes_data F (w\<lparr>shoe_list := snd ?r\<rparr>) =
              (fst ?r = None, w\<lparr>shoe_list := snd ?r, shoe_list := snd ?r\<rparr>)"
        by (rule read_present [OF _ _ Cons]) (simp_all add: ok Some)
      with first show ?thesis by simp
    qed
  qed
qed

text \<open>
  C10. The load clears the store first, so its result does not depend on the store it
  starts from: loading with any store gives what loading with the empty store gives.
  Loading a second time leaves the store of the first load.
\<close>

theorem load_determined_by_file:
  "read_shoes_data F (w\<lparr>shoe_list := xs\<rparr>) = read_shoes_data F (w\<lparr>shoe_list := []\<rparr>) \<and>
   shoe_list (snd (read_shoes_data F (snd (read_shoes_data F w)))) =
   shoe_list (snd (read_shoes_data F w))"
  using load_ignores_store load_twice by blast


section \<open>First minimum and first maximum\<close>

lemma min_scan_first_min:
  "length pre = i \<Longrightarrow> best < i \<Longrightarrow> bk = key (pre ! best) \<Longrightarrow>
   (\<forall>j<i. bk \<le> key (pre ! j)) \<Longrightarrow> (\<forall>j<best. bk < key (pre ! j)) \<Longrightarrow>
   min_scan key best bk i xs < length (pre @ xs) \<and>
   (\<forall>j<length (pre @ xs). key ((pre @ xs) ! min_scan key best bk i xs) \<le> key ((pre @ xs) ! j)) \<and>
   (\<forall>j<min_scan key best bk i xs. key ((pre @ xs) ! min_scan key best bk i xs) < key ((pre @ xs) ! j))"
proof (induction xs arbitrary: pre i best bk)
  case Nil
  then show ?case by simp
next
  case (Cons x xs)
  show ?case
  proof (cases "key x < bk")
    case True
    have "min_scan key i (key x) (Suc i) xs < length ((pre @ [x]) @ xs) \<and>
      (\<forall>j<length ((pre @ [x]) @ xs). key (((pre @ [x]) @ xs) ! min_scan key i (key x) (Suc i) xs) \<le> key (((pre @ [x]) @ xs) ! j)) \<and>
      (\<forall>j<min_scan key i (key x) (Suc i) xs. key (((pre @ [x]) @ xs) ! min_scan key i (key x) (Suc i) xs) < key (((pre @ [x]) @ xs) ! j))"
    proof (rule Cons.IH)
      show "length (pre @ [x]) = Suc i" using Cons.prems by simp
      show "i < Suc i" by simp
      show "key x = key ((pre @ [x]) ! i)" using Cons.prems by (simp add: nth_append)
      show "\<forall>j<Suc i. key x \<le> key ((pre @ [x]) ! j)"
        using Cons.prems True by (auto simp: nth_append less_Suc_eq intro: less_imp_le order.strict_trans2)
      show "\<forall>j<i. key x < key ((pre @ [x]) ! j)"
        using Cons.prems True by (auto simp: nth_append intro: order.strict_trans2)
    qed
    with True show ?thesis by simp
  next
    case False
    have "min_scan key best bk (Suc i) xs < length ((pre @ [x]) @ xs) \<and>
      (\<forall>j<length ((pre @ [x]) @ xs). key (((pre @ [x]) @ xs) ! min_scan key best bk (Suc i) xs) \<le> key (((pre @ [x]) @ xs) ! j)) \<and>
      (\<forall>j<min_scan key best bk (Suc i) xs. key (((pre @ [x]) @ xs) ! min_scan key best bk (Suc i) xs) < key (((pre @ [x]) @ xs) ! j))"
    proof (rule Cons.IH)
      show "length (pre @ [x]) = Suc i" using Cons.prems by simp
      show "best < Suc i" using Cons.prems by simp
      show "bk = key ((pre @ [x]) ! best)" using Cons.prems by (simp add: nth_append)
      show "\<forall>j<Suc i. bk \<le> key ((pre @ [x]) ! j)"
        using Cons.prems False by (auto simp: nth_append less_Suc_eq)
      show "\<forall>j<best. bk < key ((pre @ [x]) ! j)"
        using Cons.prems by (auto simp: nth_append)
    qed
    with False show ?thesis by simp
  qed
qed

lemma min_index_first_min:
  assumes "xs \<noteq> []"
  shows "\<exists>i. min_index key xs = Some i \<and> i < length xs \<and>
           (\<forall>j<length xs. key (xs ! i) \<le> key (xs ! j)) \<and> (\<forall>j<i. key (xs ! i) < key (xs ! j))"
proof -
  from assms obtain x rest where xs: "xs = x # rest" by (cases xs) auto
  have "min_scan key 0 (key x) 1 rest < length ([x] @ rest) \<and>
   (\<forall>j<length ([x] @ rest). key (([x] @ rest) ! min_scan key 0 (key x) 1 rest) \<le> key (([x] @ rest) ! j)) \<and>
   (\<forall>j<min_scan key 0 (key x) 1 rest. key (([x] @ rest) ! min_scan key 0 (key x) 1 rest) < key (([x] @ rest) ! j))"
    by (rule min_scan_first_min) auto
  then show ?thesis by (simp add: xs min_index_def)
qed

lemma max_scan_first_max:
  "length pre = i \<Longrightarrow> best < i \<Longrightarrow> bk = key (pre ! best) \<Longrightarrow>
   (\<forall>j<i. key (pre ! j) \<le> bk) \<Longrightarrow> (\<forall>j<best. key (pre ! j) < bk) \<Longrightarrow>
   max_scan key best bk i xs < length (pre @ xs) \<and>
   (\<forall>j<length (pre @ xs). key ((pre @ xs) ! j) \<le> key ((pre @ xs) ! max_scan key best bk i xs)) \<and>
   (\<forall>j<max_scan key best bk i xs. key ((pre @ xs) ! j) < key ((pre @ xs) ! max_scan key best bk i xs))"
proof (induction xs arbitrary: pre i best bk)
  case Nil
  then show ?case by simp
next
  case (Cons x xs)
  show ?case
  proof (cases "bk < key x")
    case True
    have "max_scan key i (key x) (Suc i) xs < length ((pre @ [x]) @ xs) \<and>
      (\<forall>j<length ((pre @ [x]) @ xs). key (((pre @ [x]) @ xs) ! j) \<le> key (((pre @ [x]) @ xs) ! max_scan key i (key x) (Suc i) xs)) \<and>
      (\<forall>j<max_scan key i (key x) (Suc i) xs. key (((pre @ [x]) @ xs) ! j) < key (((pre @ [x]) @ xs) ! max_scan key i (key x) (Suc i) xs))"
    proof (rule Cons.IH)
      show "length (pre @ [x]) = Suc i" using Cons.prems by simp
      show "i < Suc i" by simp
      show "key x = key ((pre @ [x]) ! i)" using Cons.prems by (simp add: nth_append)
      show "\<forall>j<Suc i. key ((pre @ [x]) ! j) \<le> key x"
        using Cons.prems True by (auto simp: nth_append less_Suc_eq intro: less_imp_le order.strict_trans1)
      show "\<forall>j<i. key ((pre @ [x]) ! j) < key x"
        using Cons.prems True by (auto simp: nth_append intro: order.strict_trans1)
    qed
    with True show ?thesis by simp
  next
    case False
    have "max_scan key best bk (Suc i) xs < length ((pre @ [x]) @ xs) \<and>
      (\<forall>j<length ((pre @ [x]) @ xs). key (((pre @ [x]) @ xs) ! j) \<le> key (((pre @ [x]) @ xs) ! max_scan key best bk (Suc i) xs)) \<and>
      (\<forall>j<max_scan key best bk (Suc i) xs. key (((pre @ [x]) @ xs) ! j) < key (((pre @ [x]) @ xs) ! max_scan key best bk (Suc i) xs))"
    proof (rule Cons.IH)
      show "length (pre @ [x]) = Suc i" using Cons.prems by simp
      show "best < Suc i" using Cons.prems by simp
      show "bk = key ((pre @ [x]) ! best)" using Cons.prems by (simp add: nth_append)
      show "\<forall>j<Suc i. key ((pre @ [x]) ! j) \<le> bk"
        using Cons.prems False by (auto simp: nth_append less_Suc_eq)
      show "\<forall>j<best. key ((pre @ [x]) ! j) < bk"
        using Cons.prems by (auto simp: nth_append)
    qed
    with False show ?thesis by simp
  qed
qed

lemma max_index_first_max:
  assumes "xs \<noteq> []"
  shows "\<exists>i. max_index key xs = Some i \<and> i < length xs \<and>
           (\<forall>j<length xs. key (xs ! j) \<le> key (xs ! i)) \<and> (\<forall>j<i. key (xs ! j) < key (xs ! i))"
proof -
  from assms obtain x rest where xs: "xs = x # rest" by (cases xs) auto
  have "max_scan key 0 (key x) 1 rest < length ([x] @ rest) \<and>
   (\<forall>j<length ([x] @ rest). key (([x] @ rest) ! j) \<le> key (([x] @ rest) ! max_scan key 0 (key x) 1 rest)) \<and>
   (\<forall>j<max_scan key 0 (key x) 1 rest. key (([x] @ rest) ! j) < key (([x] @ rest) ! max_scan key 0 (key x) 1 rest))"
    by (rule max_scan_first_max) auto
  then show ?thesis by (simp add: xs max_index_def)
qed

lemma min_index_is_first_min:
  "xs \<noteq> [] \<Longrightarrow> \<exists>i. min_index key xs = Some i \<and> first_min_at key xs i"
  using min_index_first_min [of xs key] by (auto simp: first_min_at_def)

lemma max_index_is_first_max:
  "xs \<noteq> [] \<Longrightarrow> \<exists>i. max_index key xs = Some i \<and> first_max_at key xs i"
  using max_index_first_max [of xs key] by (auto simp: first_max_at_def)

lemma first_min_at_unique:
  assumes "first_min_at key xs i" "first_min_at key xs j"
  shows "i = j"
proof (rule ccontr)
  assume "i \<noteq> j"
  then consider "i < j" | "j < i" by (meson nat_neq_iff)
  then show False
  proof cases
    case 1
    with assms have "key (xs ! j) < key (xs ! i)" "key (xs ! i) \<le> key (xs ! j)"
      by (auto simp: first_min_at_def)
    then show False by simp
  next
    case 2
    with assms have "key (xs ! i) < key (xs ! j)" "key (xs ! j) \<le> key (xs ! i)"
      by (auto simp: first_min_at_def)
    then show False by simp
  qed
qed

lemma first_max_at_unique:
  assumes "first_max_at key xs i" "first_max_at key xs j"
  shows "i = j"
proof (rule ccontr)
  assume "i \<noteq> j"
  then consider "i < j" | "j < i" by (meson nat_neq_iff)
  then show False
  proof cases
    case 1
    with assms have "key (xs ! i) < key (xs ! j)" "key (xs ! j) \<le> key (xs ! i)"
      by (auto simp: first_max_at_def)
    then show False by simp
  next
    case 2
    with assms have "key (xs ! j) < key (xs ! i)" "key (xs ! i) \<le> key (xs ! j)"
      by (auto simp: first_max_at_def)
    then show False by simp
  qed
qed

lemma min_index_eq:
  "first_min_at key xs i \<Longrightarrow> min_index key xs = Some i"
proof -
  assume a: "first_min_at key xs i"
  then have "xs \<noteq> []" by (auto simp: first_min_at_def)
  then obtain i0 where "min_index key xs = Some i0" "first_min_at key xs i0"
    using min_index_is_first_min by blast
  with a show ?thesis using first_min_at_unique by blast
qed

lemma max_index_eq:
  "first_max_at key xs i \<Longrightarrow> max_index key xs = Some i"
proof -
  assume a: "first_max_at key xs i"
  then have "xs \<noteq> []" by (auto simp: first_max_at_def)
  then obtain i0 where "max_index key xs = Some i0" "first_max_at key xs i0"
    using max_index_is_first_max by blast
  with a show ?thesis using first_max_at_unique by blast
qed

lemma re_stock_declined:
  "min_index quantity (shoe_list w) = Some i \<Longrightarrow> shoe_list w \<noteq> [] \<Longrightarrow> lower answer \<noteq> ''yes'' \<Longrightarrow>
   re_stock F (answer # inp) w = (Inr (Restock_declined (shoe_list w ! i)), w)"
  by (simp add: re_stock_def)

lemma re_stock_invalid:
  "min_index quantity (shoe_list w) = Some i \<Longrightarrow> shoe_list w \<noteq> [] \<Longrightarrow> lower answer = ''yes'' \<Longrightarrow>
   py_int a = None \<Longrightarrow>
   re_stock F (answer # a # inp) w = (Inr (Invalid_quantity (shoe_list w ! i)), w)"
  by (simp add: re_stock_def)

lemma re_stock_not_positive:
  "min_index quantity (shoe_list w) = Some i \<Longrightarrow> shoe_list w \<noteq> [] \<Longrightarrow> lower answer = ''yes'' \<Longrightarrow>
   py_int a = Some k \<Longrightarrow> k \<le> 0 \<Longrightarrow>
   re_stock F (answer # a # inp) w = (Inr (Quantity_must_be_positive (shoe_list w ! i)), w)"
  by (simp add: re_stock_def)

lemma re_stock_confirmed:
  "min_index quantity (shoe_list w) = Some i \<Longrightarrow> shoe_list w \<noteq> [] \<Longrightarrow> lower answer = ''yes'' \<Longrightarrow>
   py_int a = Some k \<Longrightarrow> 0 < k \<Longrightarrow>
   re_stock F (answer # a # inp) w =
     (let shoes = (shoe_list w)[i := (shoe_list w ! i)\<lparr>quantity := quantity (shoe_list w ! i) + k\<rparr>]
      in if disk_error w then (Inl OSError, w\<lparr>shoe_list := shoes\<rparr>)
         else (Inr (Restock_successful (shoe_list w ! i)),
               w\<lparr>shoe_list := shoes, inventory_txt := Some (rewrite_file F shoes)\<rparr>))"
  by (simp add: re_stock_def Let_def)

lemma highest_qty_eq:
  "max_index quantity (shoe_list w) = Some m \<Longrightarrow> shoe_list w \<noteq> [] \<Longrightarrow>
   highest_qty w = Inr (Shoe_for_sale (shoe_list w ! m))"
  by (simp add: highest_qty_def)

text \<open>
  C5. In a store that is not empty a first position of least quantity and a first position
  of greatest quantity exist; restock selects and shows the record at the former (here on
  an answer other than yes), the highest-quantity report shows the record at the latter.
  For the quantities 5, 2, 2, 9 these are the positions 1 and 3.
\<close>

theorem restock_and_highest_pick_first_extreme:
  assumes "shoe_list w \<noteq> []"
  shows "(\<exists>i. first_min_at quantity (shoe_list w) i) \<and>
         (\<exists>m. first_max_at quantity (shoe_list w) m) \<and>
         (\<forall>i. first_min_at quantity (shoe_list w) i \<longrightarrow>
            min_index quantity (shoe_list w) = Some i \<and>
            (lower answer \<noteq> ''yes'' \<longrightarrow>
               re_stock F (answer # inp) w = (Inr (Restock_declined (shoe_list w ! i)), w))) \<and>
         (\<forall>m. first_max_at quantity (shoe_list w) m \<longrightarrow>
            highest_qty w = Inr (Shoe_for_sale (shoe_list w ! m)))"
proof (intro conjI allI impI)
  show "\<exists>i. first_min_at quantity (shoe_list w) i"
    using min_index_is_first_min [OF assms] by blast
  show "\<exists>m. first_max_at quantity (shoe_list w) m"
    using max_index_is_first_max [OF assms] by blast
next
  fix i assume "first_min_at quantity (shoe_list w) i"
  then show m: "min_index quantity (shoe_list w) = Some i" by (rule min_index_eq)
  assume "lower answer \<noteq> ''yes''"
  with m assms show "re_stock F (answer # inp) w = (Inr (Restock_declined (shoe_list w ! i)), w)"
    by (simp add: re_stock_declined)
next
  fix m assume "first_max_at quantity (shoe_list w) m"
  then have "max_index quantity (shoe_list w) = Some m" by (rule max_index_eq)
  with assms show "highest_qty w = Inr (Shoe_for_sale (shoe_list w ! m))"
    by (simp add: highest_qty_eq)
qed

lemma first_min_5229: "first_min_at quantity shoes_5229 1"
  by (simp add: first_min_at_def shoes_5229_def mk_shoe_def atLeastLessThan_upt)

lemma first_max_5229: "first_max_at quantity shoes_5229 3"
  by (simp add: first_max_at_def shoes_5229_def mk_shoe_def atLeastLessThan_upt upt_rec)

lemma lower_no: "lower ''no'' \<noteq> ''yes''"
  by (simp add: string_eval)

theorem restock_and_highest_pick_first_extreme_witness:
  "shoe_list (in_store shoes_5229) \<noteq> [] \<and>
   first_min_at quantity shoes_5229 1 \<and> first_max_at quantity shoes_5229 3 \<and>
   re_stock exact [''no''] (in_store shoes_5229) =
     (Inr (Restock_declined (mk_shoe ''US'' ''B2'' ''Max'' 20 2)), in_store shoes_5229) \<and>
   highest_qty (in_store shoes_5229) = Inr (Shoe_for_sale (mk_shoe ''ZA'' ''D4'' ''Zoom'' 40 9))"
proof -
  have ne: "shoe_list (in_store shoes_5229) \<noteq> []"
    by (simp add: in_store_def shoes_5229_def)
  have sl: "shoe_list (in_store shoes_5229) = shoes_5229" by (simp add: in_store_def)
  note t = restock_and_highest_pick_first_extreme [OF ne, of "''no''" exact "[]", unfolded sl]
  from t first_min_5229 lower_no
  have a: "re_stock exact [''no''] (in_store shoes_5229) =
            (Inr (Restock_declined (shoes_5229 ! 1)), in_store shoes_5229)" by blast
  from t first_max_5229
  have b: "highest_qty (in_store shoes_5229) = Inr (Shoe_for_sale (shoes_5229 ! 3))" by blast
  have c: "shoes_5229 ! 1 = mk_shoe ''US'' ''B2'' ''Max'' 20 2"
          "shoes_5229 ! 3 = mk_shoe ''ZA'' ''D4'' ''Zoom'' 40 9"
    by (simp_all add: shoes_5229_def)
  from ne a b c first_min_5229 first_max_5229 show ?thesis by simp
qed

section \<open>Restock\<close>

text \<open>
  C6. In a store that is not empty, a restock confirmed with yes and an increment
  \<open>k > 0\<close> adds exactly \<open>k\<close> to the quantity of the record at the first position of
  least quantity; its other fields, the length of the store and every other record stay
  as they were. The file is then rewritten from the new store; when the file cannot be
  opened the \<open>OSError\<close> is not caught and the file stays as it was.
\<close>

theorem confirmed_restock_adds_to_lowest_only:
  assumes "shoe_list w \<noteq> []" and "lower answer = ''yes''" and "py_int a = Some k" and "0 < k"
    and "first_min_at quantity (shoe_list w) i"
  shows "length (shoe_list (snd (re_stock F (answer # a # inp) w))) = length (shoe_list w) \<and>
         quantity (shoe_list (snd (re_stock F (answer # a # inp) w)) ! i) =
           quantity (shoe_list w ! i) + k \<and>
         country (shoe_list (snd (re_stock F (answer # a # inp) w)) ! i) = country (shoe_list w ! i) \<and>
         code (shoe_list (snd (re_stock F (answer # a # inp) w)) ! i) = code (shoe_list w ! i) \<and>
         product (shoe_list (snd (re_stock F (answer # a # inp) w)) ! i) = product (shoe_list w ! i) \<and>
         cost (shoe_list (snd (re_stock F (answer # a # inp) w)) ! i) = cost (shoe_list w ! i) \<and>
         (\<forall>j \<in> {0..<length (shoe_list w)}. j \<noteq> i \<longrightarrow>
            shoe_list (snd (re_stock F (answer # a # inp) w)) ! j = shoe_list w ! j) \<and>
         fst (re_stock F (answer # a # inp) w) =
           (if disk_error w then Inl OSError else Inr (Restock_successful (shoe_list w ! i))) \<and>
         inventory_txt (snd (re_stock F (answer # a # inp) w)) =
           (if disk_error w then inventory_txt w
            else Some (rewrite_file F (shoe_list (snd (re_stock F (answer # a # inp) w)))))"
proof -
  have m: "min_index quantity (shoe_list w) = Some i"
    using assms(5) by (rule min_index_eq)
  have i: "i < length (shoe_list w)"
    using assms(5) by (simp add: first_min_at_def)
  note r = re_stock_confirmed [OF m assms(1) assms(2) assms(3) assms(4), of F inp]
  show ?thesis using i by (simp add: r Let_def)
qed

theorem confirmed_restock_adds_to_lowest_only_witness:
  "shoe_list (in_store shoes_5229) \<noteq> [] \<and> lower ''Yes'' = ''yes'' \<and> py_int ''3'' = Some 3 \<and>
   first_min_at quantity shoes_5229 1 \<and>
   shoe_list (snd (re_stock exact [''Yes'', ''3''] (in_store shoes_5229))) =
     [mk_shoe ''ZA'' ''A1'' ''Air'' 10 5, mk_shoe ''US'' ''B2'' ''Max'' 20 5,
      mk_shoe ''UK'' ''C3'' ''Run'' 30 2, mk_shoe ''ZA'' ''D4'' ''Zoom'' 40 9]"
proof -
  have ne: "shoe_list (in_store shoes_5229) \<noteq> []"
    by (simp add: in_store_def shoes_5229_def)
  have sl: "shoe_list (in_store shoes_5229) = shoes_5229" by (simp add: in_store_def)
  have y: "lower ''Yes'' = ''yes''" by code_simp
  have p: "py_int ''3'' = Some 3" by (simp add: string_eval)
  have fm: "first_min_at quantity (shoe_list (in_store shoes_5229)) 1"
    unfolding sl by (rule first_min_5229)
  note t = confirmed_restock_adds_to_lowest_only [OF ne y p _ fm, of exact "[]", unfolded sl]
  let ?xs = "shoe_list (snd (re_stock exact [''Yes'', ''3''] (in_store shoes_5229)))"
  from t have len: "length ?xs = 4" by (simp add: shoes_5229_def)
  from t have q1: "?xs ! 1 = mk_shoe ''US'' ''B2'' ''Max'' 20 5"
    by (simp add: shoes_5229_def mk_shoe_def)
  from t have others: "?xs ! 0 = shoes_5229 ! 0" "?xs ! 2 = shoes_5229 ! 2" "?xs ! 3 = shoes_5229 ! 3"
    by (simp_all add: shoes_5229_def)
  have "?xs = [?xs ! 0, ?xs ! 1, ?xs ! 2, ?xs ! 3]"
    using len by (intro nth_equalityI) (auto simp: nth_Cons' less_Suc_eq numeral_eq_Suc)
  with q1 others have "?xs = [mk_shoe ''ZA'' ''A1'' ''Air'' 10 5, mk_shoe ''US'' ''B2'' ''Max'' 20 5,
      mk_shoe ''UK'' ''C3'' ''Run'' 30 2, mk_shoe ''ZA'' ''D4'' ''Zoom'' 40 9]"
    by (simp add: shoes_5229_def)
  with ne y p first_min_5229 show ?thesis by simp
qed

text \<open>
  C7. In a store that is not empty, a restock confirmed with yes whose increment is no
  integer, or an integer \<open>k \<le> 0\<close> (zero included), ends with a message about the record
  selected and changes neither the store nor the file.
\<close>

theorem restock_rejects_bad_increment:
  assumes "shoe_list w \<noteq> []" and "lower answer = ''yes''"
    and "py_int a = None \<or> (\<exists>k. py_int a = Some k \<and> k \<le> 0)"
  shows "snd (re_stock F (answer # a # inp) w) = w \<and>
         (\<exists>i. first_min_at quantity (shoe_list w) i \<and>
              fst (re_stock F (answer # a # inp) w) =
                Inr (if py_int a = None then Invalid_quantity (shoe_list w ! i)
                     else Quantity_must_be_positive (shoe_list w ! i)))"
proof -
  obtain i where m: "min_index quantity (shoe_list w) = Some i"
    and f: "first_min_at quantity (shoe_list w) i"
    using min_index_is_first_min [OF assms(1)] by blast
  from assms(3) show ?thesis
  proof
    assume n: "py_int a = None"
    show ?thesis
      using f by (auto simp: re_stock_invalid [OF m assms(1) assms(2) n] n)
  next
    assume "\<exists>k. py_int a = Some k \<and> k \<le> 0"
    then obtain k where k: "py_int a = Some k" "k \<le> 0" by blast
    show ?thesis
      using f by (auto simp: re_stock_not_positive [OF m assms(1) assms(2) k] k)
  qed
qed

theorem restock_rejects_bad_increment_witness:
  "shoe_list (in_store shoes_5229) \<noteq> [] \<and> lower ''yes'' = ''yes'' \<and> py_int ''0'' = Some 0 \<and>
   py_int ''many'' = None \<and>
   snd (re_stock exact [''yes'', ''0''] (in_store shoes_5229)) = in_store shoes_5229 \<and>
   snd (re_stock exact [''yes'', ''many''] (in_store shoes_5229)) = in_store shoes_5229"
proof -
  have ne: "shoe_list (in_store shoes_5229) \<noteq> []"
    by (simp add: in_store_def shoes_5229_def)
  have y: "lower ''yes'' = ''yes''" by (simp add: string_eval)
  have p0: "py_int ''0'' = Some 0" by (simp add: string_eval)
  have pm: "py_int ''many'' = None" by (simp add: string_eval)
  have a: "snd (re_stock exact [''yes'', ''0''] (in_store shoes_5229)) = in_store shoes_5229"
    using restock_rejects_bad_increment [OF ne y, of "''0''" exact "[]"] p0 by simp
  have b: "snd (re_stock exact [''yes'', ''many''] (in_store shoes_5229)) = in_store shoes_5229"
    using restock_rejects_bad_increment [OF ne y, of "''many''" exact "[]"] pm by simp
  from ne y p0 pm a b show ?thesis by simp
qed

section \<open>Search\<close>

lemma search_loop_find:
  "search_loop c shoes =
     (case find (\<lambda>s. code s = c) shoes of None \<Rightarrow> Shoe_not_found | Some s \<Rightarrow> Shoe_found s)"
  by (induction shoes) auto

text \<open>
  The search shows the first record in store order whose code is equal to the input put in
  upper case. Only when every code in the store is in upper case is this the first record
  whose code equals the input up to letter case.
\<close>

lemma search_first_match:
  "search_shoe (x # inp) w =
     Inr (if shoe_list w = [] then No_shoes_in_inventory
          else case find (\<lambda>s. code s = upper x) (shoe_list w) of
                 None \<Rightarrow> Shoe_not_found | Some s \<Rightarrow> Shoe_found s)"
  by (simp add: search_shoe_def search_loop_find)

lemma search_first_match_upper:
  assumes "\<forall>s \<in> set (shoe_list w). upper (code s) = code s"
  shows "search_shoe (x # inp) w =
     Inr (if shoe_list w = [] then No_shoes_in_inventory
          else case find (\<lambda>s. upper (code s) = upper x) (shoe_list w) of
                 None \<Rightarrow> Shoe_not_found | Some s \<Rightarrow> Shoe_found s)"
proof -
  from assms have "find (\<lambda>s. upper (code s) = upper x) (shoe_list w) =
             find (\<lambda>s. code s = upper x) (shoe_list w)"
    by (intro find_cong) auto
  then show ?thesis by (simp add: search_first_match)
qed

text \<open>
  C3. The search does not match a stored code up to letter case when the code came from
  the file: add stores a code in upper case, the load stores it as the file has it, and
  the search compares with the input in upper case. After loading the line
  \<open>ZA,air001,Air Max,150.0,10\<close> the store holds a record of code \<open>air001\<close>, and the
  search for \<open>air001\<close> reports that no shoe was found.
\<close>

theorem search_misses_lower_case_code:
  "shoe_list (snd (read_shoes_data exact (on_disk file_lower_code))) =
     [mk_shoe ''ZA'' ''air001'' ''Air Max'' 150 10] \<and>
   search_shoe [''air001''] (snd (read_shoes_data exact (on_disk file_lower_code))) =
     Inr Shoe_not_found"
  by code_simp

section \<open>Malformed lines\<close>

lemma read_lines_skip:
  "read_lines F (filter (\<lambda>l. length (line_fields l) = 5) ls) shoes = read_lines F ls shoes"
  by (induction ls arbitrary: shoes) (auto simp: Let_def split: sum.splits)

lemma read_lines_all_parse:
  "(\<forall>l \<in> set ls. length (line_fields l) = 5 \<longrightarrow> \<not> isl (line_shoe F l)) \<Longrightarrow>
   read_lines F ls shoes =
     (None, shoes @ map (\<lambda>l. projr (line_shoe F l)) (filter (\<lambda>l. length (line_fields l) = 5) ls))"
proof (induction ls arbitrary: shoes)
  case Nil
  then show ?case by simp
next
  case (Cons l ls)
  show ?case
  proof (cases "length (line_fields l) = 5")
    case True
    with Cons.prems obtain s where s: "line_shoe F l = Inr s"
      by (cases "line_shoe F l") auto
    then have "Shoe F (line_fields l ! 0) (line_fields l ! 1) (line_fields l ! 2)
                 (line_fields l ! 3) (line_fields l ! 4) = Inr s"
      by (simp add: line_shoe_def Let_def)
    with True s Cons.IH [of "shoes @ [s]"] Cons.prems show ?thesis
      by (simp add: Let_def)
  next
    case False
    with Cons.IH [of shoes] Cons.prems show ?thesis by (simp add: Let_def)
  qed
qed

text \<open>
  C9. A line after the header that does not split into five fields is skipped: the load
  gives what it gives on the lines with five fields alone. When each of those has a
  numeric cost and quantity, the load succeeds and the store holds their records, all of
  them and in the order of the file.
\<close>

theorem load_skips_malformed_lines:
  assumes "inventory_txt w = Some content" and "\<not> disk_error w"
    and "file_lines content = h # ls"
  shows "read_shoes_data F w =
           (fst (read_lines F (filter (\<lambda>l. length (line_fields l) = 5) ls) []) = None,
            w\<lparr>shoe_list := snd (read_lines F (filter (\<lambda>l. length (line_fields l) = 5) ls) [])\<rparr>) \<and>
         ((\<forall>l \<in> set ls. length (line_fields l) = 5 \<longrightarrow> \<not> isl (line_shoe F l)) \<longrightarrow>
          read_shoes_data F w =
            (True, w\<lparr>shoe_list := map (\<lambda>l. projr (line_shoe F l))
                                   (filter (\<lambda>l. length (line_fields l) = 5) ls)\<rparr>))"
proof (intro conjI impI)
  show "read_shoes_data F w =
           (fst (read_lines F (filter (\<lambda>l. length (line_fields l) = 5) ls) []) = None,
            w\<lparr>shoe_list := snd (read_lines F (filter (\<lambda>l. length (line_fields l) = 5) ls) [])\<rparr>)"
    by (simp add: read_present [OF assms] read_lines_skip)
  assume "\<forall>l \<in> set ls. length (line_fields l) = 5 \<longrightarrow> \<not> isl (line_shoe F l)"
  then show "read_shoes_data F w =
            (True, w\<lparr>shoe_list := map (\<lambda>l. projr (line_shoe F l))
                                   (filter (\<lambda>l. length (line_fields l) = 5) ls)\<rparr>)"
    by (simp add: read_present [OF assms] read_lines_all_parse)
qed

theorem load_skips_malformed_lines_witness:
  "inventory_txt (on_disk file_with_malformed_lines) = Some file_with_malformed_lines \<and>
   \<not> disk_error (on_disk file_with_malformed_lines) \<and>
   file_lines file_with_malformed_lines =
     [header @ [CHR 0x0A], ''ZA,A1,Air,10.0,5'' @ [CHR 0x0A], ''garbage'' @ [CHR 0x0A],
      ''US,B2,Max,20.0,3,extra'' @ [CHR 0x0A], [CHR 0x0A], ''UK,C3,Run,30.5,2'' @ [CHR 0x0A]] \<and>
   read_shoes_data exact (on_disk file_with_malformed_lines) =
     (True, (on_disk file_with_malformed_lines)
              \<lparr>shoe_list := [mk_shoe ''ZA'' ''A1'' ''Air'' 10 5, mk_shoe ''UK'' ''C3'' ''Run'' (61 / 2) 2]\<rparr>)"
proof -
  let ?ls = "[''ZA,A1,Air,10.0,5'' @ [CHR 0x0A], ''garbage'' @ [CHR 0x0A],
      ''US,B2,Max,20.0,3,extra'' @ [CHR 0x0A], [CHR 0x0A], ''UK,C3,Run,30.5,2'' @ [CHR 0x0A]]"
  have a: "inventory_txt (on_disk file_with_malformed_lines) = Some file_with_malformed_lines"
    by (simp add: on_disk_def)
  have b: "\<not> disk_error (on_disk file_with_malformed_lines)"
    by (simp add: on_disk_def)
  have c: "file_lines file_with_malformed_lines = (header @ [CHR 0x0A]) # ?ls"
    by code_simp
  have d: "\<forall>l \<in> set ?ls. length (line_fields l) = 5 \<longrightarrow> \<not> isl (line_shoe exact l)"
    by code_simp
  have e: "map (\<lambda>l. projr (line_shoe exact l)) (filter (\<lambda>l. length (line_fields l) = 5) ?ls) =
             [mk_shoe ''ZA'' ''A1'' ''Air'' 10 5, mk_shoe ''UK'' ''C3'' ''Run'' (61 / 2) 2]"
    by code_simp
  from load_skips_malformed_lines [OF a b c, of exact] d
  have "read_shoes_data exact (on_disk file_with_malformed_lines) =
            (True, (on_disk file_with_malformed_lines)\<lparr>shoe_list := map (\<lambda>l. projr (line_shoe exact l))
                                   (filter (\<lambda>l. length (line_fields l) = 5) ?ls)\<rparr>)"
    by blast
  with a b c e show ?thesis by simp
qed

section \<open>Bounds on cost and quantity\<close>














section \<open>Stock by country\<close>

lemma accumulate_append:
  "accumulate F (xs @ ys) cs =
     (case accumulate F xs cs of Inl e \<Rightarrow> Inl e | Inr cs' \<Rightarrow> accumulate F ys cs')"
  by (induction xs arbitrary: cs) (auto simp: Let_def split: option.splits)

lemma countries_in_order_snoc:
  "countries_in_order (shoes @ [s]) =
     (if country s \<in> country ` set shoes then countries_in_order shoes
      else countries_in_order shoes @ [country s])"
  by (simp add: countries_in_order_def)

lemma set_countries_in_order: "set (countries_in_order shoes) = country ` set shoes"
  by (simp add: countries_in_order_def)

lemma fst_grouped_stats: "map fst (grouped_stats F shoes) = countries_in_order shoes"
  by (simp add: grouped_stats_def comp_def)

lemma accumulate_one:
  assumes "float_of_int F (quantity s) = Some q"
  shows "accumulate F [s] (grouped_stats F shoes) = Inr (grouped_stats F (shoes @ [s]))"
proof (cases "country s \<in> country ` set shoes")
  case True
  then have in_keys: "country s \<in> fst ` set (grouped_stats F shoes)"
    using fst_grouped_stats [of F shoes] set_countries_in_order [of shoes]
    by (metis set_map)
  have "map (\<lambda>(k, st). if k = country s
               then (k, st\<lparr>total_value := total_value st + cost s * q,
                          total_quantity := total_quantity st + quantity s,
                          products := products st + 1\<rparr>)
               else (k, st)) (grouped_stats F shoes) = grouped_stats F (shoes @ [s])"
    using True assms
    by (auto simp: grouped_stats_def countries_in_order_snoc add_shoe_def shoe_value_def)
  with in_keys assms show ?thesis by (simp add: Let_def)
next
  case False
  then have not_in_keys: "country s \<notin> fst ` set (grouped_stats F shoes)"
    using fst_grouped_stats [of F shoes] set_countries_in_order [of shoes]
    by (metis set_map)
  have empty: "filter (\<lambda>x. country x = country s) shoes = []"
    using False by (induction shoes) auto
  have "map (\<lambda>(k, st). if k = country s
               then (k, st\<lparr>total_value := total_value st + cost s * q,
                          total_quantity := total_quantity st + quantity s,
                          products := products st + 1\<rparr>)
               else (k, st))
          (grouped_stats F shoes @
           [(country s, \<lparr>total_value = 0, total_quantity = 0, products = 0\<rparr>)]) =
        grouped_stats F (shoes @ [s])"
    using False assms empty
    by (auto simp: grouped_stats_def countries_in_order_snoc add_shoe_def shoe_value_def
        set_countries_in_order)
  with not_in_keys assms show ?thesis by (simp add: Let_def)
qed

lemma accumulate_grouped:
  "(\<forall>s \<in> set shoes. float_of_int F (quantity s) \<noteq> None) \<Longrightarrow>
   accumulate F shoes [] = Inr (grouped_stats F shoes)"
proof (induction shoes rule: rev_induct)
  case Nil
  then show ?case by (simp add: grouped_stats_def countries_in_order_def)
next
  case (snoc s shoes)
  then obtain q where q: "float_of_int F (quantity s) = Some q" by auto
  from snoc have "accumulate F shoes [] = Inr (grouped_stats F shoes)" by simp
  then show ?case
    by (simp add: accumulate_append accumulate_one [OF q] del: accumulate.simps)
qed

lemma foldl_add_shoe:
  "foldl (add_shoe F) st g =
     \<lparr>total_value = foldl (\<lambda>t s. t + shoe_value F s) (total_value st) g,
      total_quantity = total_quantity st + sum_list (map quantity g),
      products = products st + int (length g)\<rparr>"
  by (induction g arbitrary: st) (auto simp: add_shoe_def)

lemma table_of_grouped: "table_of F (grouped_stats F shoes) = grouped_table F shoes"
  by (simp add: table_of_def grouped_stats_def grouped_table_def foldl_add_shoe)

lemma floor_rat_numeral:
  "\<lfloor>numeral a / numeral b :: rat\<rfloor> = numeral a div numeral b"
  by (metis floor_divide_of_int_eq of_int_numeral)

lemma digit_chars:
  "digit_char 0 = CHR ''0''" "digit_char 1 = CHR ''1''" "digit_char 2 = CHR ''2''"
  "digit_char 3 = CHR ''3''" "digit_char 4 = CHR ''4''" "digit_char 5 = CHR ''5''"
  "digit_char 6 = CHR ''6''" "digit_char 7 = CHR ''7''" "digit_char 8 = CHR ''8''"
  "digit_char 9 = CHR ''9''" "digit_char (Suc 0) = CHR ''1''"
  by code_simp+

lemma frac_digits_numeral:
  "frac_digits (numeral k) r =
     (if r = 0 then []
      else digit_char (nat \<lfloor>r * 10\<rfloor>) #
           frac_digits (pred_numeral k) (r * 10 - of_int \<lfloor>r * 10\<rfloor>))"
  by (simp add: numeral_eq_Suc)

lemmas exact_simps =
  exact_def exact_of_str_def exact_str_def exact_fmt2_def round_half_even_def Let_def
  floor_rat_numeral digit_chars frac_digits_numeral str_nat_step str_nat_digit


lemma mset_sort_reverse: "mset (sort_reverse key xs) = mset xs"
  by (simp add: sort_reverse_def)

lemma sort_reverse_descending: "sorted_wrt (\<lambda>a b. key b \<le> key a) (sort_reverse key xs)"
proof -
  have "sorted (map key (sort_key key (rev xs)))" by (rule sorted_sort_key)
  then have "sorted_wrt (\<lambda>a b. key a \<le> key b) (sort_key key (rev xs))"
    by (simp add: sorted_map)
  then show ?thesis by (simp add: sort_reverse_def sorted_wrt_rev)
qed

lemma sort_reverse_stable:
  "filter (\<lambda>r. key r = k) (sort_reverse key xs) = filter (\<lambda>r. key r = k) xs"
proof -
  have "filter (\<lambda>r. key r = k) (sort_reverse key xs) =
        rev (filter (\<lambda>r. key r = k) (sort_key key (rev xs)))"
    by (simp add: sort_reverse_def rev_filter)
  also have "\<dots> = rev (filter (\<lambda>r. key r = k) (rev xs))"
    by (simp only: sort_key_stable)
  also have "\<dots> = filter (\<lambda>r. key r = k) xs"
    by (simp add: rev_filter)
  finally show ?thesis .
qed

lemma stock_by_country_eq:
  assumes "shoe_list w \<noteq> []"
    and "\<forall>s \<in> set (shoe_list w). float_of_int F (quantity s) \<noteq> None"
    and "\<forall>row \<in> set (grouped_table F (shoe_list w)).
           row_key F row \<noteq> None \<and> \<not> is_nan F (shown_value F row)"
  shows "stock_by_country F w =
           Inr (Stock_by_country (sort_reverse (shown_value F) (grouped_table F (shoe_list w))))"
proof -
  have k: "(\<lambda>row. the (row_key F row)) = shown_value F"
    by (rule ext) (simp add: shown_value_def)
  have n: "None \<notin> set (map (row_key F) (grouped_table F (shoe_list w)))"
    using assms(3) by auto
  have "\<not> list_ex (\<lambda>row. is_nan F (the (row_key F row))) (grouped_table F (shoe_list w))"
    using assms(3) by (simp add: list_ex_iff shown_value_def)
  with n show ?thesis
    using assms(1)
    by (simp add: stock_by_country_def accumulate_grouped [OF assms(2)] table_of_grouped k
        Let_def del: set_map)
qed

text \<open>
  C8, amended. For a store that is not empty, quantities that convert to float and totals
  whose text reads back as a number other than NaN, the report groups the records by the
  exact country string, one row per country with the number of records, the total
  quantity and the total of \<open>cost * quantity\<close> shown with two decimals. The rows are those
  of \<open>grouped_table\<close>, put in descending order of the value shown, that is of the total
  rounded to two decimals; rows that show the same value keep the order in which their
  countries first appear. For the records (ZA, 10, 2), (ZA, 5, 1), (US, 100, 1) the rows
  are US 1 1 R100.00, then ZA 2 3 R25.00. (A total is NaN for a cost \<open>inf\<close> with quantity
  0, which add accepts; the order of the rows is then not determined by the values.)
\<close>

theorem stock_by_country_sorts_groups_by_shown_value:
  assumes "shoe_list w \<noteq> []"
    and "\<forall>s \<in> set (shoe_list w). float_of_int F (quantity s) \<noteq> None"
    and "\<forall>row \<in> set (grouped_table F (shoe_list w)).
           row_key F row \<noteq> None \<and> \<not> is_nan F (shown_value F row)"
  shows "\<exists>rows. stock_by_country F w = Inr (Stock_by_country rows) \<and>
           mset rows = mset (grouped_table F (shoe_list w)) \<and>
           sorted_wrt (\<lambda>a b. shown_value F b \<le> shown_value F a) rows \<and>
           (\<forall>k. filter (\<lambda>r. shown_value F r = k) rows =
                filter (\<lambda>r. shown_value F r = k) (grouped_table F (shoe_list w)))"
  using stock_by_country_eq [OF assms]
  by (auto simp: mset_sort_reverse sort_reverse_descending sort_reverse_stable)

lemma exact_sel:
  "float_of_str exact = exact_of_str" "float_of_int exact i = Some (of_int i)"
  "str_of_float exact = exact_str" "fmt2 exact = exact_fmt2" "is_nan exact x = False"
  by (simp_all add: exact_def)

lemma exact_fmt2_examples:
  "exact_fmt2 25 = ''25.00''" "exact_fmt2 100 = ''100.00''"
  "exact_fmt2 (5121 / 512) = ''10.00''" "exact_fmt2 (2561 / 256) = ''10.00''"
  by (simp_all add: exact_simps)

lemma exact_of_str_examples:
  "exact_of_str ''25.00'' = Some 25" "exact_of_str ''100.00'' = Some 100"
  "exact_of_str ''10.00'' = Some 10"
  by (simp_all add: exact_of_str_def string_eval)

lemma shoes_by_country_grouped:
  "grouped_table exact shoes_by_country =
     [(''ZA'', 2, 3, ''R25.00''), (''US'', 1, 1, ''R100.00'')]"
  by (simp add: grouped_table_def countries_in_order_def shoes_by_country_def mk_shoe_def
      shoe_value_def exact_sel exact_fmt2_examples)

lemma shoes_by_country_keys:
  "row_key exact (''ZA'', 2, 3, ''R25.00'') = Some 25"
  "row_key exact (''US'', 1, 1, ''R100.00'') = Some 100"
  by (simp_all add: row_key_def exact_sel exact_of_str_examples)

lemma shoes_below_a_cent_grouped:
  "grouped_table exact shoes_below_a_cent =
     [(''ZA'', 1, 1, ''R10.00''), (''US'', 1, 1, ''R10.00'')]"
  by (simp add: grouped_table_def countries_in_order_def shoes_below_a_cent_def mk_shoe_def
      shoe_value_def exact_sel exact_fmt2_examples)

lemma shoes_below_a_cent_keys:
  "row_key exact (''ZA'', 1, 1, ''R10.00'') = Some 10"
  "row_key exact (''US'', 1, 1, ''R10.00'') = Some 10"
  by (simp_all add: row_key_def exact_sel exact_of_str_examples)

text \<open>
  C8, as stated, fails where two totals differ by less than a cent: the sort key is the
  text of the row read back as a number. With ZA at cost 10.001953125 and US at cost
  10.00390625, one piece each, both rows show R10.00 and ZA stays first, though the
  total of US is the greater.
\<close>

theorem stock_by_country_orders_by_rounded_value:
  "stock_by_country exact (in_store shoes_below_a_cent) =
     Inr (Stock_by_country [(''ZA'', 1, 1, ''R10.00''), (''US'', 1, 1, ''R10.00'')]) \<and>
   foldl (\<lambda>t s. t + shoe_value exact s) 0 (filter (\<lambda>s. country s = ''ZA'') shoes_below_a_cent) <
   foldl (\<lambda>t s. t + shoe_value exact s) 0 (filter (\<lambda>s. country s = ''US'') shoes_below_a_cent)"
proof
  have ne: "shoe_list (in_store shoes_below_a_cent) \<noteq> []"
    by (simp add: in_store_def shoes_below_a_cent_def)
  have sl: "shoe_list (in_store shoes_below_a_cent) = shoes_below_a_cent"
    by (simp add: in_store_def)
  have conv: "\<forall>s \<in> set (shoe_list (in_store shoes_below_a_cent)).
                float_of_int exact (quantity s) \<noteq> None"
    by (simp add: exact_sel)
  have keys: "\<forall>row \<in> set (grouped_table exact (shoe_list (in_store shoes_below_a_cent))).
                row_key exact row \<noteq> None \<and> \<not> is_nan exact (shown_value exact row)"
    by (simp add: sl shoes_below_a_cent_grouped shoes_below_a_cent_keys exact_sel)
  show "stock_by_country exact (in_store shoes_below_a_cent) =
     Inr (Stock_by_country [(''ZA'', 1, 1, ''R10.00''), (''US'', 1, 1, ''R10.00'')])"
    by (simp add: stock_by_country_eq [OF ne conv keys] sl shoes_below_a_cent_grouped
        sort_reverse_def shown_value_def shoes_below_a_cent_keys)
  show "foldl (\<lambda>t s. t + shoe_value exact s) 0
          (filter (\<lambda>s. country s = ''ZA'') shoes_below_a_cent) <
        foldl (\<lambda>t s. t + shoe_value exact s) 0
          (filter (\<lambda>s. country s = ''US'') shoes_below_a_cent)"
    by (simp add: shoes_below_a_cent_def mk_shoe_def shoe_value_def exact_sel)
qed

theorem stock_by_country_sorts_groups_by_shown_value_witness:
  "shoe_list (in_store shoes_by_country) \<noteq> [] \<and>
   list_all (\<lambda>s. float_of_int exact (quantity s) \<noteq> None) (shoe_list (in_store shoes_by_country)) \<and>
   list_all (\<lambda>row. row_key exact row \<noteq> None \<and> \<not> is_nan exact (shown_value exact row))
     (grouped_table exact (shoe_list (in_store shoes_by_country))) \<and>
   grouped_table exact (shoe_list (in_store shoes_by_country)) =
     [(''ZA'', 2, 3, ''R25.00''), (''US'', 1, 1, ''R100.00'')] \<and>
   stock_by_country exact (in_store shoes_by_country) =
     Inr (Stock_by_country [(''US'', 1, 1, ''R100.00''), (''ZA'', 2, 3, ''R25.00'')]) \<and>
   sorted_wrt (\<lambda>a b. shown_value exact b \<le> shown_value exact a)
     [(''US'', 1, 1, ''R100.00''), (''ZA'', 2, 3, ''R25.00'')]"
proof -
  have sl: "shoe_list (in_store shoes_by_country) = shoes_by_country"
    by (simp add: in_store_def)
  have a: "shoe_list (in_store shoes_by_country) \<noteq> []"
    by (simp add: in_store_def shoes_by_country_def)
  have b: "\<forall>s \<in> set (shoe_list (in_store shoes_by_country)). float_of_int exact (quantity s) \<noteq> None"
    by (simp add: exact_sel)
  have g: "grouped_table exact (shoe_list (in_store shoes_by_country)) =
             [(''ZA'', 2, 3, ''R25.00''), (''US'', 1, 1, ''R100.00'')]"
    by (simp add: sl shoes_by_country_grouped)
  have c: "\<forall>row \<in> set (grouped_table exact (shoe_list (in_store shoes_by_country))).
             row_key exact row \<noteq> None \<and> \<not> is_nan exact (shown_value exact row)"
    by (simp add: g shoes_by_country_keys exact_sel)
  have e: "stock_by_country exact (in_store shoes_by_country) =
     Inr (Stock_by_country [(''US'', 1, 1, ''R100.00''), (''ZA'', 2, 3, ''R25.00'')])"
    by (simp add: stock_by_country_eq [OF a b c] g sort_reverse_def shown_value_def
        shoes_by_country_keys)
  from stock_by_country_sorts_groups_by_shown_value [OF a b c] obtain rows where
    r: "stock_by_country exact (in_store shoes_by_country) = Inr (Stock_by_country rows)"
    and s: "sorted_wrt (\<lambda>a b. shown_value exact b \<le> shown_value exact a) rows"
    by blast
  from r e have rows: "rows = [(''US'', 1, 1, ''R100.00''), (''ZA'', 2, 3, ''R25.00'')]"
    by simp
  have s': "sorted_wrt (\<lambda>a b. shown_value exact b \<le> shown_value exact a)
              [(''US'', 1, 1, ''R100.00''), (''ZA'', 2, 3, ''R25.00'')]"
    using s unfolding rows .
  have b': "list_all (\<lambda>s. float_of_int exact (quantity s) \<noteq> None)
              (shoe_list (in_store shoes_by_country))"
    using b by (simp add: list_all_iff)
  have c': "list_all (\<lambda>row. row_key exact row \<noteq> None \<and> \<not> is_nan exact (shown_value exact row))
              (grouped_table exact (shoe_list (in_store shoes_by_country)))"
    using c by (simp only: list_all_iff)
  from a b' c' g e s' show ?thesis by blast
qed

section \<open>Adding and reloading\<close>


lemma strip_ends:
  assumes "s \<noteq> []" "\<not> is_space (hd s)" "\<not> is_space (last s)"
  shows "strip s = s"
proof -
  have a: "dropWhile is_space s = s"
    using assms by (simp add: dropWhile_eq_self_iff)
  have "dropWhile is_space (rev s) = rev s"
    using assms by (simp add: dropWhile_eq_self_iff hd_rev)
  with a show ?thesis by (simp add: strip_def)
qed

lemma int_strip_ends:
  assumes "s \<noteq> []" "\<not> is_int_space (hd s)" "\<not> is_int_space (last s)"
  shows "int_strip s = s"
proof -
  have a: "dropWhile is_int_space s = s"
    using assms by (simp add: dropWhile_eq_self_iff)
  have "dropWhile is_int_space (rev s) = rev s"
    using assms by (simp add: dropWhile_eq_self_iff hd_rev)
  with a show ?thesis by (simp add: int_strip_def)
qed

lemma universal_newlines_id: "CHR 0x0D \<notin> set s \<Longrightarrow> universal_newlines s = s"
  by (induction s rule: universal_newlines.induct) auto

lemma is_space_nl: "is_space (CHR 0x0A)"
  by (simp add: is_space_def)

lemma strip_snoc_nl: "strip (l @ [CHR 0x0A]) = strip l"
proof (cases "\<forall>c \<in> set l. is_space c")
  case True
  then have a: "dropWhile is_space l = []"
    unfolding dropWhile_eq_Nil_conv by simp
  from True have b: "dropWhile is_space (l @ [CHR 0x0A]) = []"
    unfolding dropWhile_eq_Nil_conv by (auto simp: is_space_nl)
  show ?thesis unfolding strip_def a b by simp
next
  case False
  then have "dropWhile is_space (l @ [CHR 0x0A]) = dropWhile is_space l @ [CHR 0x0A]"
    by (simp add: dropWhile_append)
  then show ?thesis by (simp add: strip_def is_space_nl)
qed

lemma split_on_not_Nil: "split_on sep s \<noteq> []"
  by (induction s) (auto split: list.splits)

lemma split_on_no_sep: "sep \<notin> set s \<Longrightarrow> split_on sep s = [s]"
  by (induction s) auto

lemma split_on_append:
  "sep \<notin> set a \<Longrightarrow> split_on sep (a @ sep # rest) = a # split_on sep rest"
  by (induction a) auto

lemma lf_lines_Nil_iff: "lf_lines l = [] \<longleftrightarrow> l = []"
  by (cases l) (auto split: list.splits)

lemma lf_lines_one: "CHR 0x0A \<notin> set l \<Longrightarrow> l \<noteq> [] \<Longrightarrow> lf_lines l = [l]"
proof (induction l)
  case Nil
  then show ?case by simp
next
  case (Cons c l)
  show ?case
  proof (cases "l = []")
    case True
    with Cons.prems show ?thesis by simp
  next
    case False
    with Cons show ?thesis by auto
  qed
qed

lemma lf_lines_append:
  "CHR 0x0A \<notin> set l \<Longrightarrow> lf_lines (l @ CHR 0x0A # rest) = (l @ [CHR 0x0A]) # lf_lines rest"
  by (induction l) auto

lemma lf_lines_joined:
  "CHR 0x0A \<notin> set h \<Longrightarrow> h \<noteq> [] \<Longrightarrow> (\<forall>l \<in> set ls. CHR 0x0A \<notin> set l \<and> l \<noteq> []) \<Longrightarrow>
   \<exists>h' ls'. lf_lines (h @ concat (map ((#) (CHR 0x0A)) ls)) = h' # ls' \<and>
            map strip ls' = map strip ls"
proof (induction ls arbitrary: h)
  case Nil
  then show ?case by (simp add: lf_lines_one)
next
  case (Cons l ls)
  from Cons.prems have "CHR 0x0A \<notin> set l" "l \<noteq> []"
    and "\<forall>l \<in> set ls. CHR 0x0A \<notin> set l \<and> l \<noteq> []" by auto
  from Cons.IH [OF this] obtain h' ls' where
    r: "lf_lines (l @ concat (map ((#) (CHR 0x0A)) ls)) = h' # ls'"
    and s: "map strip ls' = map strip ls" by blast
  have h': "strip h' = strip l"
  proof (cases ls)
    case Nil
    with r \<open>CHR 0x0A \<notin> set l\<close> \<open>l \<noteq> []\<close> show ?thesis by (simp add: lf_lines_one)
  next
    case (Cons l2 ls2)
    with r \<open>CHR 0x0A \<notin> set l\<close> have "h' = l @ [CHR 0x0A]"
      by (simp add: lf_lines_append)
    then show ?thesis by (simp add: strip_snoc_nl)
  qed
  have "lf_lines (h @ concat (map ((#) (CHR 0x0A)) (l # ls))) =
        (h @ [CHR 0x0A]) # h' # ls'"
    using Cons.prems(1) r by (simp add: lf_lines_append)
  with s h' show ?case by simp
qed

lemma read_lines_cong_strip:
  "map strip ls1 = map strip ls2 \<Longrightarrow> read_lines F ls1 shoes = read_lines F ls2 shoes"
proof (induction ls1 arbitrary: ls2 shoes)
  case Nil
  then show ?case by simp
next
  case (Cons l ls1)
  then obtain l2 ls2' where ls2: "ls2 = l2 # ls2'" by (cases ls2) auto
  with Cons.prems have "strip l = strip l2" "map strip ls1 = map strip ls2'" by auto
  with Cons.IH ls2 show ?case
    by (simp add: line_fields_def Let_def split: sum.splits)
qed


lemma of_char_digit_char: "d < 10 \<Longrightarrow> (of_char (digit_char d) :: nat) = 48 + d"
  by (simp add: digit_char_def)

lemma is_digit_digit_char: "d < 10 \<Longrightarrow> is_digit (digit_char d)"
  by (simp add: is_digit_def of_char_digit_char)

lemma digit_value_digit_char: "d < 10 \<Longrightarrow> digit_value (digit_char d) = d"
  by (simp add: digit_value_def of_char_digit_char)

lemma str_nat_digits: "list_all is_digit (str_nat n) \<and> str_nat n \<noteq> []"
proof (induction n rule: str_nat.induct)
  case (1 n)
  show ?case
  proof (cases "n < 10")
    case True
    then show ?thesis by (simp add: str_nat_digit is_digit_digit_char)
  next
    case False
    with 1 show ?thesis by (simp add: str_nat_step is_digit_digit_char)
  qed
qed

lemma parse_digits_digits:
  "list_all is_digit ds \<Longrightarrow> ds \<noteq> [] \<or> p \<Longrightarrow>
   parse_digits p acc ds = Some (foldl (\<lambda>a c. 10 * a + digit_value c) acc ds)"
  by (induction ds arbitrary: p acc) auto

lemma foldl_str_nat: "foldl (\<lambda>a c. 10 * a + digit_value c) 0 (str_nat n) = n"
proof (induction n rule: str_nat.induct)
  case (1 n)
  show ?case
  proof (cases "n < 10")
    case True
    then show ?thesis by (simp add: str_nat_digit digit_value_digit_char)
  next
    case False
    with 1 show ?thesis by (simp add: str_nat_step digit_value_digit_char)
  qed
qed

lemma is_digit_plain:
  "is_digit c \<Longrightarrow>
   \<not> is_space c \<and> \<not> is_int_space c \<and> c \<noteq> CHR '','' \<and> c \<noteq> CHR 0x0A \<and> c \<noteq> CHR 0x0D \<and>
   c \<noteq> CHR ''-'' \<and> c \<noteq> CHR ''+''"
  by (auto simp: is_digit_def is_space_def is_int_space_def)

lemma parse_str_nat: "parse_digits False 0 (str_nat n) = Some n"
  using str_nat_digits [of n] by (simp add: parse_digits_digits foldl_str_nat)

lemma strip_digits: "list_all is_digit ds \<Longrightarrow> int_strip ds = ds"
proof (cases ds)
  case Nil
  then show ?thesis by (simp add: int_strip_def)
next
  case (Cons c cs)
  assume a: "list_all is_digit ds"
  with Cons have "is_digit (hd ds)" "is_digit (last ds)"
    using last_in_set [of ds] by (auto simp: list_all_iff)
  with Cons show ?thesis by (intro int_strip_ends) (auto simp: is_digit_plain)
qed

lemma py_int_str_int: "py_int (str_int q) = Some q"
proof (cases "q < 0")
  case False
  obtain c cs where cs: "str_nat (nat q) = c # cs"
    using str_nat_digits [of "nat q"] by (cases "str_nat (nat q)") auto
  with str_nat_digits [of "nat q"] have "is_digit c" by simp
  then have "c \<noteq> CHR ''-''" "c \<noteq> CHR ''+''" by (simp_all add: is_digit_plain)
  with False cs show ?thesis
    using strip_digits [of "str_nat (nat q)"] str_nat_digits [of "nat q"] parse_str_nat [of "nat q"]
    by (simp add: py_int_def str_int_def)
next
  case True
  have nsp: "\<not> is_int_space (CHR ''-'')" by (simp add: is_int_space_def)
  have d: "list_all is_digit (str_nat (nat (- q)))" "str_nat (nat (- q)) \<noteq> []"
    using str_nat_digits by auto
  then have "is_digit (last (str_nat (nat (- q))))"
    using last_in_set [of "str_nat (nat (- q))"] by (auto simp: list_all_iff)
  then have "int_strip (CHR ''-'' # str_nat (nat (- q))) = CHR ''-'' # str_nat (nat (- q))"
    using d nsp by (intro int_strip_ends) (auto simp: is_digit_plain)
  with True show ?thesis
    by (simp add: py_int_def str_int_def parse_str_nat)
qed

lemma str_int_plain:
  "str_int q \<noteq> [] \<and> \<not> is_space (last (str_int q)) \<and> plain_text (str_int q)"
proof -
  have d: "list_all is_digit (str_nat n)" "str_nat n \<noteq> []" for n
    using str_nat_digits by auto
  have l: "is_digit (last (str_nat n))" for n
  proof -
    have "last (str_nat n) \<in> set (str_nat n)" using d(2) by simp
    with d(1) show ?thesis by (simp add: list_all_iff)
  qed
  have p: "plain_text (str_nat n)" for n
    using d(1) [of n] by (auto simp: plain_text_def list_all_iff is_digit_plain)
  show ?thesis
    using d l p by (auto simp: str_int_def plain_text_def is_digit_plain)
qed



lemma plain_textD:
  "plain_text s \<Longrightarrow> CHR '','' \<notin> set s \<and> CHR 0x0A \<notin> set s \<and> CHR 0x0D \<notin> set s"
  by (auto simp: plain_text_def list_all_iff)

lemma shoe_str_split:
  assumes "storable F s"
  shows "split_on CHR '','' (shoe_str F s) =
           [country s, code s, product s, str_of_float F (cost s), str_int (quantity s)]"
proof -
  from assms have "CHR '','' \<notin> set (country s)" "CHR '','' \<notin> set (code s)"
    "CHR '','' \<notin> set (product s)" "CHR '','' \<notin> set (str_of_float F (cost s))"
    by (simp_all add: storable_def plain_textD)
  moreover have "CHR '','' \<notin> set (str_int (quantity s))"
    using str_int_plain [of "quantity s"] by (simp add: plain_textD)
  ultimately show ?thesis
    by (simp add: shoe_str_def split_on_append split_on_no_sep)
qed

lemma shoe_str_line:
  assumes "storable F s"
  shows "shoe_str F s \<noteq> [] \<and> CHR 0x0A \<notin> set (shoe_str F s) \<and> CHR 0x0D \<notin> set (shoe_str F s) \<and>
         strip (shoe_str F s) = shoe_str F s"
proof -
  have ne: "shoe_str F s \<noteq> []" by (simp add: shoe_str_def)
  from assms have "CHR 0x0D \<notin> set (country s)" "CHR 0x0D \<notin> set (code s)"
    "CHR 0x0D \<notin> set (product s)" "CHR 0x0D \<notin> set (str_of_float F (cost s))"
    by (simp_all add: storable_def plain_textD)
  moreover have "CHR 0x0D \<notin> set (str_int (quantity s))"
    using str_int_plain [of "quantity s"] by (simp add: plain_textD)
  ultimately have cr: "CHR 0x0D \<notin> set (shoe_str F s)"
    by (simp add: shoe_str_def)
  from assms have "CHR 0x0A \<notin> set (country s)" "CHR 0x0A \<notin> set (code s)"
    "CHR 0x0A \<notin> set (product s)" "CHR 0x0A \<notin> set (str_of_float F (cost s))"
    by (simp_all add: storable_def plain_textD)
  moreover have "CHR 0x0A \<notin> set (str_int (quantity s))"
    using str_int_plain [of "quantity s"] by (simp add: plain_textD)
  ultimately have nl: "CHR 0x0A \<notin> set (shoe_str F s)"
    by (simp add: shoe_str_def)
  have "\<not> is_space (CHR '','')" by (simp add: is_space_def)
  with assms have h: "\<not> is_space (hd (shoe_str F s))"
    by (auto simp: storable_def shoe_str_def hd_append)
  have l: "\<not> is_space (last (shoe_str F s))"
    using str_int_plain [of "quantity s"] by (simp add: shoe_str_def)
  from ne nl cr strip_ends [OF ne h l] show ?thesis by simp
qed

lemma line_shoe_shoe_str:
  assumes "storable F s"
  shows "length (line_fields (shoe_str F s)) = 5 \<and> line_shoe F (shoe_str F s) = Inr s"
proof -
  have f: "line_fields (shoe_str F s) =
             [country s, code s, product s, str_of_float F (cost s), str_int (quantity s)]"
    using shoe_str_line [OF assms] shoe_str_split [OF assms] by (simp add: line_fields_def)
  from assms have "float_of_str F (str_of_float F (cost s)) = Some (cost s)"
    by (simp add: storable_def)
  then show ?thesis
    by (simp add: f line_shoe_def Shoe_def py_int_str_int)
qed

lemma read_lines_written:
  "list_all (storable F) shoes \<Longrightarrow>
   read_lines F (map (shoe_str F) shoes) [] = (None, shoes)"
proof -
  assume a: "list_all (storable F) shoes"
  then have all: "\<forall>l \<in> set (map (shoe_str F) shoes).
                   length (line_fields l) = 5 \<longrightarrow> \<not> isl (line_shoe F l)"
    by (auto simp: list_all_iff line_shoe_shoe_str)
  from a have five: "filter (\<lambda>l. length (line_fields l) = 5) (map (shoe_str F) shoes) =
                     map (shoe_str F) shoes"
    by (auto simp: list_all_iff line_shoe_shoe_str intro: filter_True)
  from a have "map (\<lambda>l. projr (line_shoe F l)) (map (shoe_str F) shoes) = shoes"
    by (induction shoes) (auto simp: line_shoe_shoe_str)
  with read_lines_all_parse [OF all, of "[]"] five show ?thesis by simp
qed

lemma reload_written:
  assumes "list_all (storable F) shoes" and "\<not> disk_error w"
    and "inventory_txt w = Some (header @ concat (map (\<lambda>s. CHR 0x0A # shoe_str F s) shoes))"
  shows "read_shoes_data F w = (True, w\<lparr>shoe_list := shoes\<rparr>)"
proof -
  let ?content = "header @ concat (map (\<lambda>s. CHR 0x0A # shoe_str F s) shoes)"
  have c: "concat (map (\<lambda>s. CHR 0x0A # shoe_str F s) shoes) =
           concat (map ((#) (CHR 0x0A)) (map (shoe_str F) shoes))"
    by (simp add: comp_def)
  have hd: "CHR 0x0A \<notin> set header" "header \<noteq> []" by (simp_all add: header_def)
  have ls: "\<forall>l \<in> set (map (shoe_str F) shoes). CHR 0x0A \<notin> set l \<and> l \<noteq> []"
    using assms(1) by (auto simp: list_all_iff shoe_str_line)
  have "CHR 0x0D \<notin> set header" by (simp add: header_def)
  moreover have "\<forall>s \<in> set shoes. CHR 0x0D \<notin> set (shoe_str F s)"
    using assms(1) by (auto simp: list_all_iff shoe_str_line)
  ultimately have "CHR 0x0D \<notin> set ?content" by auto
  then have un: "file_lines ?content = lf_lines ?content"
    by (simp add: file_lines_def universal_newlines_id)
  from lf_lines_joined [OF hd ls] obtain h' ls' where
    fl: "lf_lines (header @ concat (map ((#) (CHR 0x0A)) (map (shoe_str F) shoes))) = h' # ls'"
    and st: "map strip ls' = map strip (map (shoe_str F) shoes)" by blast
  have "read_lines F ls' [] = read_lines F (map (shoe_str F) shoes) []"
    using st by (rule read_lines_cong_strip)
  then have r: "read_lines F ls' [] = (None, shoes)"
    by (simp add: read_lines_written [OF assms(1)])
  from fl have "lf_lines ?content = h' # ls'"
    by (simp only: c)
  with un have fl': "file_lines ?content = h' # ls'" by simp
  show ?thesis
    by (simp add: read_present [OF assms(3) assms(2) fl'] r)
qed

lemma capture_shoes_ok:
  "enter_shoe F inp = Inr s \<Longrightarrow> \<not> disk_error w \<Longrightarrow> inventory_txt w = Some t \<Longrightarrow>
   capture_shoes F inp w =
     (Inr Shoe_added,
      w\<lparr>shoe_list := shoe_list w @ [s], inventory_txt := Some (t @ CHR 0x0A # shoe_str F s)\<rparr>)"
  by (simp add: capture_shoes_def Let_def shoe_str_def)

lemma capture_all_ok:
  "list_all (\<lambda>inp. \<not> isl (enter_shoe F inp)) inps \<Longrightarrow> \<not> disk_error w \<Longrightarrow>
   inventory_txt w = Some t \<Longrightarrow>
   capture_all F inps w =
     w\<lparr>shoe_list := shoe_list w @ map (\<lambda>inp. projr (enter_shoe F inp)) inps,
       inventory_txt :=
         Some (t @ concat (map (\<lambda>s. CHR 0x0A # shoe_str F s)
                            (map (\<lambda>inp. projr (enter_shoe F inp)) inps)))\<rparr>"
proof (induction inps arbitrary: w t)
  case Nil
  then show ?case by (simp add: capture_all_def)
next
  case (Cons inp inps)
  from Cons.prems obtain s where s: "enter_shoe F inp = Inr s"
    by (cases "enter_shoe F inp") auto
  let ?w1 = "w\<lparr>shoe_list := shoe_list w @ [s],
                inventory_txt := Some (t @ CHR 0x0A # shoe_str F s)\<rparr>"
  have step: "capture_shoes F inp w = (Inr Shoe_added, ?w1)"
    using s Cons.prems(2,3) by (rule capture_shoes_ok)
  have "capture_all F (inp # inps) w = capture_all F inps ?w1"
    by (simp add: capture_all_def step)
  also have "\<dots> = ?w1\<lparr>shoe_list := shoe_list ?w1 @ map (\<lambda>inp. projr (enter_shoe F inp)) inps,
       inventory_txt :=
         Some ((t @ CHR 0x0A # shoe_str F s) @
               concat (map (\<lambda>s. CHR 0x0A # shoe_str F s)
                            (map (\<lambda>inp. projr (enter_shoe F inp)) inps)))\<rparr>"
    using Cons.prems by (intro Cons.IH) simp_all
  finally show ?case by (simp add: s)
qed

text \<open>
  C4, amended. Starting from an empty store and a file that holds the header only, with a
  writable disk: after \<open>N\<close> adds whose prompts were all answered, the store holds the \<open>N\<close>
  records entered, in order. When those records are storable (no comma, line feed or
  carriage return in country, code and product, no white space at the start of the
  country, and a cost that \<open>float\<close> reads back from its text), loading the file again
  succeeds and yields exactly this store: the same strings, the same costs and
  quantities, the same order.
\<close>

theorem adds_are_kept_and_reloaded:
  assumes "shoe_list w = []" and "inventory_txt w = Some header" and "\<not> disk_error w"
    and "list_all (\<lambda>inp. \<not> isl (enter_shoe F inp)) inps"
  shows "length (shoe_list (capture_all F inps w)) = length inps \<and>
         shoe_list (capture_all F inps w) = map (\<lambda>inp. projr (enter_shoe F inp)) inps \<and>
         (list_all (storable F) (shoe_list (capture_all F inps w)) \<longrightarrow>
          read_shoes_data F (capture_all F inps w) = (True, capture_all F inps w))"
proof -
  let ?shoes = "map (\<lambda>inp. projr (enter_shoe F inp)) inps"
  have eq: "capture_all F inps w =
         w\<lparr>shoe_list := ?shoes,
           inventory_txt := Some (header @ concat (map (\<lambda>s. CHR 0x0A # shoe_str F s) ?shoes))\<rparr>"
    using capture_all_ok [OF assms(4) assms(3) assms(2)] assms(1) by simp
  have "read_shoes_data F (capture_all F inps w) = (True, capture_all F inps w)"
    if "list_all (storable F) ?shoes"
  proof -
    have "read_shoes_data F (capture_all F inps w) =
            (True, (capture_all F inps w)\<lparr>shoe_list := ?shoes\<rparr>)"
      by (rule reload_written [OF that]) (simp_all add: eq assms(3))
    then show ?thesis by (simp add: eq)
  qed
  then show ?thesis by (simp add: eq)
qed

text \<open>
  C4, as stated, fails for a valid add whose product contains a comma: the line written
  then has six fields and the load skips it. After adding (ZA, air001, Air,Max, 150.00,
  10) the store holds one record and the reloaded store none.
\<close>

theorem comma_in_product_is_lost_on_reload:
  "shoe_list (capture_all exact add_with_comma (in_store [])) =
     [mk_shoe ''ZA'' ''AIR001'' ''Air,Max'' 150 10] \<and>
   read_shoes_data exact (capture_all exact add_with_comma (in_store [])) =
     (True, (capture_all exact add_with_comma (in_store []))\<lparr>shoe_list := []\<rparr>)"
  by code_simp

theorem adds_are_kept_and_reloaded_witness:
  "shoe_list (in_store []) = [] \<and> inventory_txt (in_store []) = Some header \<and>
   \<not> disk_error (in_store []) \<and>
   list_all (\<lambda>inp. \<not> isl (enter_shoe exact inp)) two_adds \<and>
   list_all (storable exact) (shoe_list (capture_all exact two_adds (in_store []))) \<and>
   shoe_list (capture_all exact two_adds (in_store [])) =
     [mk_shoe ''ZA'' ''AIR001'' ''Air Max'' 150 10, mk_shoe ''US'' ''B2'' ''Max'' (41 / 2) 3] \<and>
   read_shoes_data exact (capture_all exact two_adds (in_store [])) =
     (True, capture_all exact two_adds (in_store []))"
proof -
  have a: "shoe_list (in_store []) = []" "inventory_txt (in_store []) = Some header"
    "\<not> disk_error (in_store [])"
    by (simp_all add: in_store_def)
  have v: "list_all (\<lambda>inp. \<not> isl (enter_shoe exact inp)) two_adds" by code_simp
  have e: "map (\<lambda>inp. projr (enter_shoe exact inp)) two_adds =
           [mk_shoe ''ZA'' ''AIR001'' ''Air Max'' 150 10, mk_shoe ''US'' ''B2'' ''Max'' (41 / 2) 3]"
    by code_simp
  have st: "list_all (storable exact)
              [mk_shoe ''ZA'' ''AIR001'' ''Air Max'' 150 10, mk_shoe ''US'' ''B2'' ''Max'' (41 / 2) 3]"
    by code_simp
  note t = adds_are_kept_and_reloaded [OF a v]
  from t e have s: "shoe_list (capture_all exact two_adds (in_store [])) =
     [mk_shoe ''ZA'' ''AIR001'' ''Air Max'' 150 10, mk_shoe ''US'' ''B2'' ''Max'' (41 / 2) 3]"
    by simp
  from st s have st': "list_all (storable exact) (shoe_list (capture_all exact two_adds (in_store [])))"
    by simp
  from t st' have r: "read_shoes_data exact (capture_all exact two_adds (in_store [])) =
     (True, capture_all exact two_adds (in_store []))"
    by blast
  from a v st' s r show ?thesis by blast
qed

end
